theory Spec2Isabelle
  imports Complex_Main "HOL-Library.Word" "HOL-Library.Log_Nat"
begin

unbundle bit_operations_syntax

section \<open>ADF41020 sweep controller: data model\<close>

text \<open>
  The sketch targets an AVR Arduino (it writes the AVR port registers \<open>DDRD\<close> and
  \<open>PORTD\<close> and divides a 16 MHz system clock), where \<open>byte\<close> is 8 bits, \<open>int\<close> is 16 bits,
  \<open>long\<close> is 32 bits, and \<open>float\<close> and \<open>double\<close> are both the 32-bit binary format.

  \<^item> A \<open>byte\<close> is an \<open>8 word\<close>.
  \<^item> An \<open>int\<close> or \<open>long\<close> is a HOL \<open>int\<close>; the only places where a value can leave the
    range of its C type are the conversions from \<open>float\<close>, and there the range is
    checked: a conversion whose value does not fit is undefined in C and is the fault
    \<open>Cast_Out_Of_Range\<close> here.
  \<^item> A \<open>float\<close> is a \<open>float32\<close>: the rational number it denotes, or \<open>Special\<close>. Every
    float operation is the exact operation followed by rounding to 24 significant bits,
    to the nearest value and to the even one of two nearest. \<open>Special\<close> stands for
    everything this model does not follow: infinities and NaNs, and results below the
    normal range; it propagates through the operations, and its conversion to an integer
    is a fault.
  \<^item> An array access outside the array is undefined in C and is the fault
    \<open>Index_Out_Of_Bounds\<close> here.
\<close>

type_synonym byte = "8 word"

datatype fault = Cast_Out_Of_Range | Index_Out_Of_Bounds

subsection \<open>Compile-time constants\<close>

definition DWELL_TIME :: int where "DWELL_TIME = 1000"
definition SWEEP_PAUSE :: int where "SWEEP_PAUSE = 0"
definition PULSE_DURATION :: int where "PULSE_DURATION = 500"
definition LONG_DELAY :: int where "LONG_DELAY = 100"
definition DO_LONG_DELAY :: bool where "DO_LONG_DELAY = False"

definition RFInputFrequency :: int where "RFInputFrequency = 100"
definition PFDFrequency :: int where "PFDFrequency = 1250"

definition freqVec :: "int list" where
  "freqVec =
    [10415, 10460, 10505, 10550, 10595, 10640, 10685, 10730, 10775, 10820,
     10865, 10910, 10955, 11000, 11045, 11090, 11135, 11180, 11225, 11270,
     11315, 11360, 11405, 11450, 11495, 11540, 11585, 11630, 11675, 11720,
     11765, 11810, 11855, 11900, 11945, 11990, 12035, 12080, 12125, 12170,
     12215, 12260, 12305, 12350, 12395, 12440, 12485, 12530, 12575, 12620,
     12665, 12710, 12755, 12800, 12845, 12890, 12935, 12980, 13025, 13070]"

subsection \<open>Global variables\<close>

record state =
  N0 :: "byte list"
  N1 :: "byte list"
  N2 :: byte
  R2 :: byte
  R1 :: byte
  R0 :: byte
  R0A :: "byte list"
  R1A :: "byte list"
  R2A :: "byte list"
  F2 :: byte
  F1 :: byte
  F0 :: byte
  F0A :: "byte list"
  F1A :: "byte list"
  F2A :: "byte list"

text \<open>
  The globals at program start: every array has one element per frequency and is
  zero-initialised (\<open>= {}\<close>), \<open>N2\<close> is \<open>0x00\<close>, and the scalars without initialiser are
  zero as all C globals are.
\<close>

definition init_state :: "nat \<Rightarrow> state" where
  "init_state n =
    \<lparr>N0 = replicate n 0, N1 = replicate n 0, N2 = 0x00,
     R2 = 0, R1 = 0, R0 = 0,
     R0A = replicate n 0, R1A = replicate n 0, R2A = replicate n 0,
     F2 = 0, F1 = 0, F0 = 0,
     F0A = replicate n 0, F1A = replicate n 0, F2A = replicate n 0\<rparr>"

text \<open>All arrays are declared with the same size \<open>sizeof(freqVec)/sizeof(int)\<close>.\<close>

definition sized :: "nat \<Rightarrow> state \<Rightarrow> bool" where
  "sized n s \<longleftrightarrow>
     length (N0 s) = n \<and> length (N1 s) = n \<and>
     length (R0A s) = n \<and> length (R1A s) = n \<and> length (R2A s) = n \<and>
     length (F0A s) = n \<and> length (F1A s) = n \<and> length (F2A s) = n"

subsection \<open>Binary32 arithmetic\<close>

datatype float32 = Finite rat | Special

text \<open>Rounding to the nearest integer, to the even one of two nearest.\<close>

definition rne :: "rat \<Rightarrow> int" where
  "rne y =
     (let n = \<lfloor>y\<rfloor>; d = y - of_int n
      in if d < 1 / 2 then n else if 1 / 2 < d then n + 1 else if even n then n else n + 1)"

text \<open>The binary exponent of \<open>x \<noteq> 0\<close>: the \<open>e\<close> with \<open>2 powi e \<le> \<bar>x\<bar> < 2 powi (e + 1)\<close>.\<close>

definition ilog2 :: "rat \<Rightarrow> int" where
  "ilog2 x =
     (case quotient_of \<bar>x\<bar> of
        (a, b) \<Rightarrow> let l = bitlen a - bitlen b in if 2 powi l \<le> \<bar>x\<bar> then l else l - 1)"

text \<open>Rounding to 24 significant bits: to a multiple of the unit in the last place.\<close>

definition round32 :: "rat \<Rightarrow> rat" where
  "round32 x = (let u = 2 powi (ilog2 x - 23) in of_int (rne (x / u)) * u)"

definition rnd :: "rat \<Rightarrow> float32" where
  "rnd x =
     (if x = 0 then Finite 0
      else if \<bar>x\<bar> < 2 powi (- 126) then Special
      else let y = round32 x in if 2 powi 128 \<le> \<bar>y\<bar> then Special else Finite y)"

fun fadd :: "float32 \<Rightarrow> float32 \<Rightarrow> float32" where
  "fadd (Finite a) (Finite b) = rnd (a + b)"
| "fadd _ _ = Special"

fun fmul :: "float32 \<Rightarrow> float32 \<Rightarrow> float32" where
  "fmul (Finite a) (Finite b) = rnd (a * b)"
| "fmul _ _ = Special"

fun fdiv :: "float32 \<Rightarrow> float32 \<Rightarrow> float32" where
  "fdiv (Finite a) (Finite b) = (if b = 0 then Special else rnd (a / b))"
| "fdiv _ _ = Special"

text \<open>A sum \<open>a + b + c + ...\<close> of C associates to the left.\<close>

definition fsum :: "float32 \<Rightarrow> float32 list \<Rightarrow> float32" where
  "fsum a bs = foldl fadd a bs"

text \<open>The conversions of an \<open>int\<close> and of a \<open>byte\<close> operand to \<open>float\<close>.\<close>

definition float_of_int :: "int \<Rightarrow> float32" where
  "float_of_int z = rnd (of_int z)"

definition float_of_byte :: "byte \<Rightarrow> float32" where
  "float_of_byte b = rnd (of_nat (unat b))"

text \<open>
  \<open>pow(b, k)\<close> for integer arguments. Every call of the sketch has constant arguments,
  and its value is the power, rounded.
\<close>

definition pow :: "int \<Rightarrow> int \<Rightarrow> float32" where
  "pow b k = rnd (of_int b powi k)"

subsection \<open>C conversions and array accesses\<close>

text \<open>Conversion of a float to an integer type discards the fraction (towards zero).\<close>

definition c_trunc :: "rat \<Rightarrow> int" where
  "c_trunc x = (if 0 \<le> x then \<lfloor>x\<rfloor> else \<lceil>x\<rceil>)"

text \<open>\<open>(int)x\<close> for a float \<open>x\<close>, with the 16-bit \<open>int\<close> of the target.\<close>

definition int_of_float :: "float32 \<Rightarrow> fault + int" where
  "int_of_float x =
     (case x of
        Special \<Rightarrow> Inl Cast_Out_Of_Range
      | Finite q \<Rightarrow>
          let z = c_trunc q
          in if - 32768 \<le> z \<and> z \<le> 32767 then Inr z else Inl Cast_Out_Of_Range)"

text \<open>\<open>(long)x\<close> for a float \<open>x\<close>, with the 32-bit \<open>long\<close> of the target.\<close>

definition long_of_float :: "float32 \<Rightarrow> fault + int" where
  "long_of_float x =
     (case x of
        Special \<Rightarrow> Inl Cast_Out_Of_Range
      | Finite q \<Rightarrow>
          let z = c_trunc q
          in if - 2147483648 \<le> z \<and> z \<le> 2147483647 then Inr z else Inl Cast_Out_Of_Range)"

text \<open>Integer division of C truncates towards zero.\<close>

definition c_div :: "int \<Rightarrow> int \<Rightarrow> int" where
  "c_div a b = sgn a * sgn b * (\<bar>a\<bar> div \<bar>b\<bar>)"

text \<open>\<open>lowByte(w)\<close> is \<open>(uint8_t)(w & 0xff)\<close>.\<close>

definition lowByte :: "int \<Rightarrow> byte" where
  "lowByte w = word_of_int (w AND 0xFF)"

definition in_bounds :: "int \<Rightarrow> 'a list \<Rightarrow> bool" where
  "in_bounds i xs \<longleftrightarrow> 0 \<le> i \<and> nat i < length xs"

definition rd :: "'a list \<Rightarrow> int \<Rightarrow> fault + 'a" where
  "rd xs i = (if in_bounds i xs then Inr (xs ! nat i) else Inl Index_Out_Of_Bounds)"

section \<open>calcRegisters\<close>

subsection \<open>The parameters of the sweep (locals with constant initialisers)\<close>

definition PrescalerBoxIndex :: int where "PrescalerBoxIndex = 1"
definition ChargePumpSetting1SelectedIndex :: int where "ChargePumpSetting1SelectedIndex = 3"
definition ChargePumpSetting2SelectedIndex :: int where "ChargePumpSetting2SelectedIndex = 3"
definition ChargePumpGainBoxSelectedIndex :: int where "ChargePumpGainBoxSelectedIndex = 0"
definition ChargePump3StateBoxSelectedIndex :: int where "ChargePump3StateBoxSelectedIndex = 0"
definition FastLockBoxSelectedIndex :: int where "FastLockBoxSelectedIndex = 0"
definition TimeoutBoxSelectedIndex :: int where "TimeoutBoxSelectedIndex = 0"
definition PhaseDetectorPolarityBoxSelectedIndex :: int where
  "PhaseDetectorPolarityBoxSelectedIndex = 0"
definition CounterResetBoxSelectedIndex :: int where "CounterResetBoxSelectedIndex = 0"
definition LockDetectPrecisionBoxSelectedIndex :: int where
  "LockDetectPrecisionBoxSelectedIndex = 0"
definition PowerDownBoxSelectedIndex :: int where "PowerDownBoxSelectedIndex = 0"
definition ABPWBoxSelectedIndex :: int where "ABPWBoxSelectedIndex = 0"
definition SyncBoxSelectedIndex :: int where "SyncBoxSelectedIndex = 0"
definition DelayBoxSelectedIndex :: int where "DelayBoxSelectedIndex = 0"
definition MuxoutBoxSelectedIndex :: int where "MuxoutBoxSelectedIndex = 0"
definition TestmodesBoxSelectedIndex :: int where "TestmodesBoxSelectedIndex = 1"

text \<open>The casts of the selectors to \<open>byte\<close>, with the two adjustments of the source.\<close>

definition Prescaler :: byte where "Prescaler = word_of_int PrescalerBoxIndex"
definition CPsetting1 :: byte where "CPsetting1 = word_of_int ChargePumpSetting1SelectedIndex"
definition CPsetting2 :: byte where "CPsetting2 = word_of_int ChargePumpSetting2SelectedIndex"
definition CPGain :: byte where "CPGain = word_of_int ChargePumpGainBoxSelectedIndex"
definition CP3state :: byte where "CP3state = word_of_int ChargePump3StateBoxSelectedIndex"
definition Fastlock :: byte where
  "Fastlock = (let f = word_of_int FastLockBoxSelectedIndex in if f = 2 then f + 1 else f)"
definition Timeout :: byte where "Timeout = word_of_int TimeoutBoxSelectedIndex"
definition PDPolarity :: byte where
  "PDPolarity = word_of_int PhaseDetectorPolarityBoxSelectedIndex"
definition CounterReset :: byte where "CounterReset = word_of_int CounterResetBoxSelectedIndex"
definition LDP :: byte where "LDP = word_of_int LockDetectPrecisionBoxSelectedIndex"
definition Powerdown :: byte where
  "Powerdown = (let p = word_of_int PowerDownBoxSelectedIndex in if p = 2 then p + 1 else p)"
definition ABPW :: byte where "ABPW = word_of_int ABPWBoxSelectedIndex"
definition Sync :: byte where "Sync = word_of_int SyncBoxSelectedIndex"
definition Delay :: byte where "Delay = word_of_int DelayBoxSelectedIndex"
definition Muxout :: byte where "Muxout = word_of_int MuxoutBoxSelectedIndex"
definition Testmodes :: byte where "Testmodes = word_of_int TestmodesBoxSelectedIndex"

subsection \<open>The counters P, R, N, B and A\<close>

text \<open>
  \<open>RFout = RFout/4\<close> is a float division, and so are the two quotients by \<open>PFDFreq\<close>; a
  quotient by zero is an infinity or a NaN. The result is the tuple \<open>(P, R, N, B, A)\<close>.
\<close>

definition counters ::
  "float32 \<Rightarrow> float32 \<Rightarrow> float32 \<Rightarrow> fault + (int \<times> int \<times> int \<times> int \<times> int)" where
  "counters RFOutFreqBox RefFreqBox PFDFreqBox =
     (let RFout = fdiv RFOutFreqBox (float_of_int 4)
      in case int_of_float (pow 2 PrescalerBoxIndex) of
           Inl e \<Rightarrow> Inl e
         | Inr p \<Rightarrow>
             let P = p * 8
             in case int_of_float (fdiv (fmul RefFreqBox (float_of_int 1000)) PFDFreqBox) of
                  Inl e \<Rightarrow> Inl e
                | Inr R \<Rightarrow>
                    (case int_of_float (fdiv (fmul RFout (float_of_int 1000)) PFDFreqBox) of
                       Inl e \<Rightarrow> Inl e
                     | Inr N \<Rightarrow>
                         let B = c_div N P;
                             A = N - B * P
                         in Inr (P, R, N, B, A)))"

subsection \<open>The three register values\<close>

definition Reg0 :: "int \<Rightarrow> float32" where
  "Reg0 R =
     fsum (pow 2 23)
       [pow 2 20,
        fmul (float_of_byte Testmodes) (pow 2 16),
        fmul (float_of_int (R AND 0x3FFF)) (pow 2 2)]"

definition Reg1 :: "int \<Rightarrow> int \<Rightarrow> float32" where
  "Reg1 B A =
     fsum (fmul (float_of_byte CPGain) (pow 2 21))
       [fmul (float_of_int (B AND 0x1FFF)) (pow 2 8),
        fmul (float_of_int (A AND 0x3F)) (pow 2 2),
        float_of_int 1]"

definition Reg2 :: float32 where
  "Reg2 =
     fsum (fmul (float_of_byte Prescaler) (pow 2 22))
       [fmul (float_of_byte CPsetting2) (pow 2 18),
        fmul (float_of_byte CPsetting1) (pow 2 15),
        fmul (float_of_byte Timeout) (pow 2 11),
        fmul (float_of_byte Fastlock) (pow 2 9),
        fmul (float_of_byte CP3state) (pow 2 8),
        fmul (float_of_byte PDPolarity) (pow 2 7),
        fmul (float_of_byte Muxout) (pow 2 4),
        fmul (float_of_byte Powerdown) (pow 2 3),
        fmul (float_of_byte CounterReset) (pow 2 2),
        float_of_int 2]"

text \<open>
  The values \<open>(long)Reg[0]\<close>, \<open>(long)Reg[1]\<close> and \<open>(long)Reg[2]\<close> for the given inputs:
  the reference, feedback and function words.
\<close>

definition Reg_long ::
  "float32 \<Rightarrow> float32 \<Rightarrow> float32 \<Rightarrow> fault + (int \<times> int \<times> int)" where
  "Reg_long RFOutFreqBox RefFreqBox PFDFreqBox =
     (case counters RFOutFreqBox RefFreqBox PFDFreqBox of
        Inl e \<Rightarrow> Inl e
      | Inr (P, R, N, B, A) \<Rightarrow>
          (case (long_of_float (Reg0 R), long_of_float (Reg1 B A), long_of_float Reg2) of
             (Inr r0, Inr r1, Inr r2) \<Rightarrow> Inr (r0, r1, r2)
           | _ \<Rightarrow> Inl Cast_Out_Of_Range))"

subsection \<open>The stores\<close>

definition calcRegisters ::
  "float32 \<Rightarrow> float32 \<Rightarrow> float32 \<Rightarrow> int \<Rightarrow> state \<Rightarrow> fault + state" where
  "calcRegisters RFOutFreqBox RefFreqBox PFDFreqBox i s =
     (case Reg_long RFOutFreqBox RefFreqBox PFDFreqBox of
        Inl e \<Rightarrow> Inl e
      | Inr (r0, r1, r2) \<Rightarrow>
          if in_bounds i (N0 s) \<and> in_bounds i (N1 s) \<and> in_bounds i (R0A s)
             \<and> in_bounds i (R1A s) \<and> in_bounds i (R2A s)
          then
            let s1 = s\<lparr>N0 := (N0 s)[nat i := lowByte r1]\<rparr>;
                s2 = s1\<lparr>N1 := (N1 s1)[nat i := lowByte (drop_bit 8 r1)]\<rparr>;
                s3 = (if i = 0
                      then s2\<lparr>R0 := lowByte r0,
                              R1 := lowByte (drop_bit 8 r0),
                              R2 := lowByte (drop_bit 16 r0),
                              F0 := lowByte r2,
                              F1 := lowByte (drop_bit 8 r2),
                              F2 := lowByte (drop_bit 16 r2)\<rparr>
                      else s2);
                s4 = s3\<lparr>R0A := (R0A s3)[nat i := lowByte r0]\<rparr>;
                s5 = s4\<lparr>R1A := (R1A s4)[nat i := lowByte (drop_bit 8 r0)]\<rparr>
            in Inr (s5\<lparr>R2A := (R2A s5)[nat i := lowByte (drop_bit 16 r0)]\<rparr>)
          else Inl Index_Out_Of_Bounds)"

section \<open>Bus and console effects\<close>

text \<open>
  Every call that acts on the outside world is an event, and a run of the program is the
  list of its events in program order. \<open>PORTD\<close> drives the two control lines: bit 7 is
  the latch-enable line \<open>LE\<close> (pin 7) and bit 6 the sync indicator \<open>SI\<close> (pin 6).
\<close>

datatype bit_order = LSBFIRST | MSBFIRST

datatype data_mode = SPI_MODE0 | SPI_MODE1 | SPI_MODE2 | SPI_MODE3

datatype clock_divider =
  SPI_CLOCK_DIV2 | SPI_CLOCK_DIV4 | SPI_CLOCK_DIV8 | SPI_CLOCK_DIV16
  | SPI_CLOCK_DIV32 | SPI_CLOCK_DIV64 | SPI_CLOCK_DIV128

datatype event =
  DDRD_or byte
  | PORTD_write byte
  | Serial_begin int
  | Serial_println string
  | SPI_begin
  | SPI_setBitOrder bit_order
  | SPI_setDataMode data_mode
  | SPI_setClockDivider clock_divider
  | SPI_transfer byte
  | DelayMicroseconds int
  | Delay_ms int

definition LE_high :: "byte \<Rightarrow> bool" where
  "LE_high p = bit p 7"

definition SI_high :: "byte \<Rightarrow> bool" where
  "SI_high p = bit p 6"

subsection \<open>delayer\<close>

definition delayer :: "int \<Rightarrow> event list" where
  "delayer delval =
     (if DO_LONG_DELAY then [Delay_ms LONG_DELAY] else []) @ [DelayMicroseconds delval]"

subsection \<open>SPIwrite24bitRegister\<close>

definition SPIwrite24bitRegister :: "byte \<Rightarrow> byte \<Rightarrow> byte \<Rightarrow> bool \<Rightarrow> event list" where
  "SPIwrite24bitRegister b23to16 b15to8 b7to0 NewFrame =
     [SPI_transfer b23to16, SPI_transfer b15to8, SPI_transfer b7to0]
     @ [if NewFrame then PORTD_write 0xC0 else PORTD_write 0x80]
     @ [DelayMicroseconds PULSE_DURATION]
     @ [PORTD_write 0x00]
     @ delayer (DWELL_TIME - PULSE_DURATION)"

subsection \<open>loop\<close>

text \<open>
  The \<open>for\<close> loop of \<open>loop()\<close> from index \<open>i\<close> on; \<open>sizeof(N0)\<close> is the number of
  elements of the byte array \<open>N0\<close>.
\<close>

function loop_from :: "state \<Rightarrow> nat \<Rightarrow> fault + event list" where
  "loop_from s i =
     (if i < length (N0 s) then
        (case (rd (N1 s) (int i), rd (N0 s) (int i)) of
           (Inr n1, Inr n0) \<Rightarrow>
             (case loop_from s (Suc i) of
                Inl e \<Rightarrow> Inl e
              | Inr evs \<Rightarrow>
                  Inr ((if i = 0 then SPIwrite24bitRegister (N2 s) n1 n0 True
                        else SPIwrite24bitRegister (N2 s) n1 n0 False) @ evs))
         | _ \<Rightarrow> Inl Index_Out_Of_Bounds)
      else Inr [])"
  by pat_completeness auto
termination
  by (relation "measure (\<lambda>(s, i). length (N0 s) - i)") auto

declare loop_from.simps [simp del]

definition loop :: "state \<Rightarrow> fault + event list" where
  "loop s =
     (case loop_from s 0 of
        Inl e \<Rightarrow> Inl e
      | Inr evs \<Rightarrow>
          (case (rd (N1 s) 0, rd (N0 s) 0) of
             (Inr n1, Inr n0) \<Rightarrow>
               Inr (evs @ SPIwrite24bitRegister (N2 s) n1 n0 False @ delayer SWEEP_PAUSE)
           | _ \<Rightarrow> Inl Index_Out_Of_Bounds))"

subsection \<open>setup\<close>

text \<open>
  How a piece of \<open>setup()\<close> ends: it runs to its end with the globals \<open>s\<close>, or it enters
  one of the two \<open>while(true) delay(1);\<close> loops and never leaves it, or it runs into
  undefined behaviour.
\<close>

datatype outcome = Done state | Halted | Undefined fault

text \<open>
  The body of the first \<open>for\<close> loop of \<open>setup()\<close> at index \<open>i\<close>, over the frequency array
  \<open>fv\<close>: the call of \<open>calcRegisters\<close> and the two checks, each of which reports and halts.
\<close>

definition sweep_step :: "int list \<Rightarrow> nat \<Rightarrow> state \<Rightarrow> event list \<times> outcome" where
  "sweep_step fv i s =
     (case calcRegisters (float_of_int (fv ! i)) (float_of_int RFInputFrequency)
             (float_of_int PFDFrequency) (int i) s of
        Inl e \<Rightarrow> ([], Undefined e)
      | Inr s' \<Rightarrow>
          (case (rd (R0A s') (int i), rd (R1A s') (int i), rd (R2A s') (int i)) of
             (Inr r0a, Inr r1a, Inr r2a) \<Rightarrow>
               if R0 s' \<noteq> r0a \<or> R1 s' \<noteq> r1a \<or> R2 s' \<noteq> r2a then
                 ([Serial_println
                     ''RCounter changed during sweep. This is not yet supported. Execution halted''],
                  Halted)
               else
                 (case (rd (F0A s') (int i), rd (F1A s') (int i), rd (F2A s') (int i)) of
                    (Inr f0a, Inr f1a, Inr f2a) \<Rightarrow>
                      if F0 s' \<noteq> f0a \<or> F1 s' \<noteq> f1a \<or> F2 s' \<noteq> f2a then
                        ([Serial_println
                            ''Function Latch changed during sweep. This is not yet supported. Execution halted''],
                         Halted)
                      else ([], Done s')
                  | _ \<Rightarrow> ([], Undefined Index_Out_Of_Bounds))
           | _ \<Rightarrow> ([], Undefined Index_Out_Of_Bounds)))"

text \<open>The loop itself, from index \<open>i\<close> on.\<close>

function populate :: "int list \<Rightarrow> nat \<Rightarrow> state \<Rightarrow> event list \<times> outcome" where
  "populate fv i s =
     (if i < length fv then
        (case sweep_step fv i s of
           (evs, Done s') \<Rightarrow>
             (case populate fv (Suc i) s' of (evs', out) \<Rightarrow> (evs @ evs', out))
         | (evs, out) \<Rightarrow> (evs, out))
      else ([], Done s))"
  by pat_completeness auto
termination
  by (relation "measure (\<lambda>(fv, i, s). length fv - i)") auto

declare populate.simps [simp del]

text \<open>The rest of \<open>setup()\<close>: the SPI configuration and the two words sent once.\<close>

definition setup_spi :: "event list" where
  "setup_spi =
     [SPI_begin, SPI_setBitOrder MSBFIRST, SPI_setDataMode SPI_MODE0,
      SPI_setClockDivider SPI_CLOCK_DIV2]"

definition setup_send :: "state \<Rightarrow> event list" where
  "setup_send s =
     delayer SWEEP_PAUSE
     @ [SPI_transfer (F2 s), SPI_transfer (F1 s), SPI_transfer (F0 s)]
     @ [PORTD_write 0x80, DelayMicroseconds PULSE_DURATION, PORTD_write 0x00]
     @ delayer (DWELL_TIME - PULSE_DURATION)
     @ [SPI_transfer (R2 s), SPI_transfer (R1 s), SPI_transfer (R0 s)]
     @ [PORTD_write 0x80, DelayMicroseconds PULSE_DURATION, PORTD_write 0x00]
     @ delayer (DWELL_TIME - PULSE_DURATION)"

text \<open>
  \<open>setup()\<close> for the frequency array \<open>fv\<close> (in the sketch: \<open>freqVec\<close>), from the globals at
  program start.
\<close>

definition setup_fn :: "int list \<Rightarrow> event list \<times> outcome" where
  "setup_fn fv =
     (let pre = [DDRD_or 0xC0, PORTD_write 0x00, Serial_begin 9600]
      in case populate fv 0 (init_state (length fv)) of
           (evs, Done s) \<Rightarrow> (pre @ evs @ setup_spi @ setup_send s, Done s)
         | (evs, out) \<Rightarrow> (pre @ evs, out))"

subsection \<open>The program\<close>

text \<open>
  The Arduino runtime calls \<open>setup()\<close> once and then \<open>loop()\<close> forever. \<open>run fv k\<close> is
  what the program has done when the loop it ends in has made \<open>k\<close> iterations: \<open>k\<close> passes
  of \<open>loop()\<close> after a \<open>setup()\<close> that returned, or \<open>k\<close> rounds of \<open>delay(1)\<close> in the halt
  loop of a \<open>setup()\<close> that did not. The second component tells whether the program is
  still defined.
\<close>

fun passes :: "nat \<Rightarrow> state \<Rightarrow> event list \<times> fault option" where
  "passes 0 s = ([], None)"
| "passes (Suc k) s =
     (case loop s of
        Inl e \<Rightarrow> ([], Some e)
      | Inr evs \<Rightarrow> (case passes k s of (rest, r) \<Rightarrow> (evs @ rest, r)))"

definition run :: "int list \<Rightarrow> nat \<Rightarrow> event list \<times> fault option" where
  "run fv k =
     (case setup_fn fv of
        (evs, Done s) \<Rightarrow> (case passes k s of (rest, r) \<Rightarrow> (evs @ rest, r))
      | (evs, Halted) \<Rightarrow> (evs @ replicate k (Delay_ms 1), None)
      | (evs, Undefined e) \<Rightarrow> (evs, Some e))"

text \<open>
  \<open>setup()\<close> is a function of the globals it finds. \<open>setup_from fv s0\<close> is \<open>setup()\<close>
  entered with the globals \<open>s0\<close>, and \<open>run_from fv s0 k\<close> the program that follows it;
  \<open>setup_fn\<close> and \<open>run\<close> are these at \<open>init_state (length fv)\<close>, the globals at
  program start.
\<close>

definition setup_from :: "int list \<Rightarrow> state \<Rightarrow> event list \<times> outcome" where
  "setup_from fv s0 =
     (let pre = [DDRD_or 0xC0, PORTD_write 0x00, Serial_begin 9600]
      in case populate fv 0 s0 of
           (evs, Done s) \<Rightarrow> (pre @ evs @ setup_spi @ setup_send s, Done s)
         | (evs, out) \<Rightarrow> (pre @ evs, out))"

definition run_from :: "int list \<Rightarrow> state \<Rightarrow> nat \<Rightarrow> event list \<times> fault option" where
  "run_from fv s0 k =
     (case setup_from fv s0 of
        (evs, Done s) \<Rightarrow> (case passes k s of (rest, r) \<Rightarrow> (evs @ rest, r))
      | (evs, Halted) \<Rightarrow> (evs @ replicate k (Delay_ms 1), None)
      | (evs, Undefined e) \<Rightarrow> (evs, Some e))"

text \<open>
  The sketch also defines \<open>parseSerial()\<close>, which nothing calls: it has no part in a run.
\<close>

subsection \<open>The tables of the precomputed variant\<close>

text \<open>
  The source file holds a second sketch, which sends a fixed table instead of computing
  one: the reference word \<open>0x910140\<close>, the function word \<open>0x4D8002\<close>, \<open>N2 = 0x00\<close> and the
  two byte arrays \<open>N1\<close> and \<open>N0\<close> of 26 entries each, named \<open>N1_precomputed\<close> and
  \<open>N0_precomputed\<close> here.
\<close>

definition N1_precomputed :: "byte list" where
  "N1_precomputed =
     [0x83, 0x84, 0x85, 0x87, 0x88, 0x89, 0x8A, 0x8C, 0x8D, 0x8E, 0x8F, 0x91, 0x92,
      0x93, 0x94, 0x96, 0x97, 0x98, 0x99, 0x9B, 0x9C, 0x9D, 0x9E, 0xA0, 0xA1, 0xA2]"

definition N0_precomputed :: "byte list" where
  "N0_precomputed =
     [0x11, 0x21, 0x31, 0x01, 0x11, 0x21, 0x31, 0x01, 0x11, 0x21, 0x31, 0x01, 0x11,
      0x21, 0x31, 0x01, 0x11, 0x21, 0x31, 0x01, 0x11, 0x21, 0x31, 0x01, 0x11, 0x21]"

section \<open>Observations on runs\<close>

text \<open>
  What a reader of a run looks for: the events that raise the latch-enable line or the
  sync line, the SPI transfers, and the time spent in the delay calls (in microseconds).
\<close>

definition asserts_LE :: "event \<Rightarrow> bool" where
  "asserts_LE e = (case e of PORTD_write p \<Rightarrow> LE_high p | _ \<Rightarrow> False)"

definition asserts_SI :: "event \<Rightarrow> bool" where
  "asserts_SI e = (case e of PORTD_write p \<Rightarrow> SI_high p | _ \<Rightarrow> False)"

definition is_transfer :: "event \<Rightarrow> bool" where
  "is_transfer e = (case e of SPI_transfer b \<Rightarrow> True | _ \<Rightarrow> False)"

definition bus_output :: "event \<Rightarrow> bool" where
  "bus_output e \<longleftrightarrow> is_transfer e \<or> asserts_LE e \<or> asserts_SI e"


text \<open>
  The SPI settings under which the bytes of a run are shifted out: \<open>transfers_configured\<close>
  follows the bit order and the data mode through the run (both unknown, \<open>None\<close>, until
  set) and holds when every \<open>SPI.transfer\<close> of the run is made with the most significant
  bit first and in mode 0 (clock idle low, data sampled on the rising edge).
\<close>

fun transfers_configured :: "bit_order option \<Rightarrow> data_mode option \<Rightarrow> event list \<Rightarrow> bool" where
  "transfers_configured bo dm [] = True"
| "transfers_configured bo dm (SPI_setBitOrder b # es) = transfers_configured (Some b) dm es"
| "transfers_configured bo dm (SPI_setDataMode m # es) = transfers_configured bo (Some m) es"
| "transfers_configured bo dm (SPI_transfer x # es) =
     (bo = Some MSBFIRST \<and> dm = Some SPI_MODE0 \<and> transfers_configured bo dm es)"
| "transfers_configured bo dm (e # es) = transfers_configured bo dm es"

definition configures :: "event \<Rightarrow> bool" where
  "configures e = (case e of SPI_setBitOrder b \<Rightarrow> True | SPI_setDataMode m \<Rightarrow> True | _ \<Rightarrow> False)"

section \<open>Binary32 rounding\<close>

subsection \<open>Rounding to an integer\<close>

lemma rne_of_int [simp]: "rne (of_int z) = z"
  by (simp add: rne_def)

lemma floor_le_rne: "\<lfloor>y\<rfloor> \<le> rne y"
  by (simp add: rne_def Let_def)

lemma rne_le_floor1: "rne y \<le> \<lfloor>y\<rfloor> + 1"
  by (simp add: rne_def Let_def)

lemma rne_ge: "of_int z \<le> y \<Longrightarrow> z \<le> rne y"
proof -
  assume "of_int z \<le> y"
  then have "z \<le> \<lfloor>y\<rfloor>"
    by (simp add: le_floor_iff)
  with floor_le_rne [of y] show ?thesis
    by linarith
qed

lemma rne_le: "y \<le> of_int z \<Longrightarrow> rne y \<le> z"
proof -
  assume a: "y \<le> of_int z"
  show ?thesis
  proof (cases "y = of_int \<lfloor>y\<rfloor>")
    case True
    then have "rne y = \<lfloor>y\<rfloor>"
      by (metis rne_of_int)
    moreover from a have "\<lfloor>y\<rfloor> \<le> \<lfloor>of_int z :: rat\<rfloor>"
      by (rule floor_mono)
    ultimately show ?thesis
      by simp
  next
    case False
    then have "of_int \<lfloor>y\<rfloor> < y"
      by (metis of_int_floor_le order_le_less)
    with a have "(of_int \<lfloor>y\<rfloor> :: rat) < of_int z"
      by linarith
    then have "\<lfloor>y\<rfloor> < z"
      by simp
    with rne_le_floor1 [of y] show ?thesis
      by linarith
  qed
qed

subsection \<open>The binary exponent\<close>

lemma powi_int_rat: "0 \<le> n \<Longrightarrow> (2::rat) powi n = of_int (2 ^ nat n)"
  by (simp add: power_int_def)

lemma ilog2_bounds:
  assumes "0 < x"
  shows "2 powi ilog2 x \<le> x" and "x < 2 powi (ilog2 x + 1)"
proof -
  obtain a b where q: "quotient_of x = (a, b)"
    by (cases "quotient_of x")
  have b: "0 < b"
    using q by (rule quotient_of_denom_pos)
  have x: "x = of_int a / of_int b"
    using q by (rule quotient_of_div)
  have a: "0 < a"
    using assms b unfolding x by (simp add: zero_less_divide_iff)
  define p where "p = bitlen a"
  define r where "r = bitlen b"
  have pa: "2 ^ nat (p - 1) \<le> a" "a < 2 ^ nat p"
    using bitlen_bounds [OF a] by (simp_all add: p_def)
  have rb: "2 ^ nat (r - 1) \<le> b" "b < 2 ^ nat r"
    using bitlen_bounds [OF b] by (simp_all add: r_def)
  have p1: "1 \<le> p"
    using pa(2) a by (cases "p \<le> 0") auto
  have r1: "1 \<le> r"
    using rb(2) b by (cases "r \<le> 0") auto
  have ar: "(of_int a :: rat) < 2 powi p" "(2::rat) powi (p - 1) \<le> of_int a"
    using pa p1 by (simp_all add: powi_int_rat del: of_int_power)
  have br: "(of_int b :: rat) < 2 powi r" "(2::rat) powi (r - 1) \<le> of_int b"
    using rb r1 by (simp_all add: powi_int_rat del: of_int_power)
  have up: "x < 2 powi (p - r + 1)"
  proof -
    have "x * of_int b = of_int a"
      using b by (simp add: x)
    also have "\<dots> < 2 powi p"
      by (rule ar)
    also have "\<dots> = 2 powi (p - r + 1) * 2 powi (r - 1)"
      by (simp add: power_int_add [symmetric])
    also have "\<dots> \<le> 2 powi (p - r + 1) * of_int b"
      using br(2) by (simp add: mult_left_mono)
    finally show ?thesis
      using b by simp
  qed
  have lo: "2 powi (p - r - 1) < x"
  proof -
    have "2 powi (p - r - 1) * of_int b < 2 powi (p - r - 1) * (2::rat) powi r"
      using br(1) by (simp add: mult_strict_left_mono)
    also have "\<dots> = 2 powi (p - 1)"
      by (simp add: power_int_add [symmetric])
    also have "\<dots> \<le> of_int a"
      by (rule ar)
    also have "\<dots> = x * of_int b"
      using b by (simp add: x)
    finally show ?thesis
      using b by simp
  qed
  have e: "ilog2 x = (if 2 powi (p - r) \<le> x then p - r else p - r - 1)"
    using assms by (simp add: ilog2_def q p_def r_def Let_def)
  show "2 powi ilog2 x \<le> x"
    using lo by (simp add: e)
  show "x < 2 powi (ilog2 x + 1)"
    using up by (simp add: e not_le)
qed


subsection \<open>Rounding lies between the neighbours\<close>

lemma powi_pos: "0 < (2::rat) powi n"
  by simp

lemma powi_mono: "m \<le> n \<Longrightarrow> (2::rat) powi m \<le> 2 powi n"
  by (simp add: power_int_increasing)

lemma powi_less_cancel: "(2::rat) powi m < 2 powi n \<Longrightarrow> m < n"
  by (metis powi_mono not_le)

text \<open>A non-negative multiple of the unit \<open>2 powi g\<close> with a significand of at most 24 bits.\<close>

lemma multiple_of_unit:
  assumes "u = (2::rat) powi d" and "d \<le> g" and "0 \<le> m"
  shows "of_int m * 2 powi g / u = of_int (m * 2 ^ nat (g - d))"
    and "of_int (m * 2 ^ nat (g - d)) * u = of_int m * 2 powi g"
proof -
  have s: "(2::rat) powi g = 2 powi (g - d) * 2 powi d"
    by (simp add: power_int_add [symmetric])
  have p: "(2::rat) powi (g - d) = of_int (2 ^ nat (g - d))"
    using assms(2) by (simp add: powi_int_rat)
  have "(of_int (m * 2 ^ nat (g - d)) :: rat) = of_int m * 2 powi (g - d)"
    unfolding p by simp
  then show e: "of_int (m * 2 ^ nat (g - d)) * u = of_int m * 2 powi g"
    unfolding assms(1) s by (simp only: mult.assoc)
  have "u \<noteq> 0"
    using assms(1) by simp
  then show "of_int m * 2 powi g / u = of_int (m * 2 ^ nat (g - d))"
    unfolding e [symmetric] by simp
qed

lemma round32_lower:
  assumes "0 < x" and "0 \<le> m" and "m < 2 ^ 24" and "of_int m * 2 powi g \<le> x"
  shows "of_int m * 2 powi g \<le> round32 x"
proof -
  define e where "e = ilog2 x"
  define u :: rat where "u = 2 powi (e - 23)"
  have u: "0 < u"
    by (simp add: u_def)
  have r: "round32 x = of_int (rne (x / u)) * u"
    by (simp add: round32_def e_def u_def Let_def)
  have lo: "2 powi e \<le> x"
    unfolding e_def using assms(1) by (rule ilog2_bounds)
  show ?thesis
  proof (cases "e - 23 \<le> g")
    case True
    have "of_int (m * 2 ^ nat (g - (e - 23))) = of_int m * 2 powi g / u"
      using multiple_of_unit(1) [OF u_def True assms(2)] by simp
    also have "\<dots> \<le> x / u"
      using assms(4) u by (simp add: divide_right_mono)
    finally have "m * 2 ^ nat (g - (e - 23)) \<le> rne (x / u)"
      by (rule rne_ge)
    then have "(of_int (m * 2 ^ nat (g - (e - 23))) :: rat) * u \<le> of_int (rne (x / u)) * u"
      using u by (simp del: of_int_mult of_int_power)
    then show ?thesis
      unfolding r by (simp only: multiple_of_unit(2) [OF u_def True assms(2)])
  next
    case False
    then have g: "g \<le> e - 24"
      by simp
    have "of_int m * 2 powi g \<le> (2::rat) ^ 24 * 2 powi g"
      using assms(3) by (simp add: mult_right_mono del: of_int_power)
    also have "\<dots> \<le> 2 ^ 24 * 2 powi (e - 24)"
      using g by (simp add: powi_mono)
    also have "\<dots> = 2 powi e"
      by (simp add: power_int_diff)
    finally have a: "of_int m * 2 powi g \<le> (2::rat) powi e" .
    have "(2::rat) powi e = of_int (2 ^ 23) * u"
      by (simp add: u_def power_int_diff)
    then have "of_int (2 ^ 23) \<le> x / u"
      using lo u by (simp add: pos_le_divide_eq del: of_int_power)
    then have "2 ^ 23 \<le> rne (x / u)"
      by (rule rne_ge)
    then have "(of_int (2 ^ 23) :: rat) * u \<le> of_int (rne (x / u)) * u"
      using u by (simp del: of_int_power)
    with a \<open>2 powi e = of_int (2 ^ 23) * u\<close> show ?thesis
      by (simp add: r)
  qed
qed

lemma round32_upper:
  assumes "0 < x" and "0 \<le> m" and "m < 2 ^ 24" and "x \<le> of_int m * 2 powi g"
  shows "round32 x \<le> of_int m * 2 powi g"
proof -
  define e where "e = ilog2 x"
  define u :: rat where "u = 2 powi (e - 23)"
  have u: "0 < u"
    by (simp add: u_def)
  have r: "round32 x = of_int (rne (x / u)) * u"
    by (simp add: round32_def e_def u_def Let_def)
  have lo: "2 powi e \<le> x"
    unfolding e_def using assms(1) by (rule ilog2_bounds)
  have d: "e - 23 \<le> g"
  proof (rule ccontr)
    assume "\<not> e - 23 \<le> g"
    then have g: "g \<le> e - 24"
      by simp
    have "(of_int m :: rat) < 2 ^ 24"
      using assms(3) by (metis of_int_less_iff of_int_numeral of_int_power)
    then have "of_int m * 2 powi g < (2::rat) ^ 24 * 2 powi g"
      by (simp add: mult_strict_right_mono)
    also have "\<dots> \<le> 2 ^ 24 * 2 powi (e - 24)"
      using g by (simp add: powi_mono)
    also have "\<dots> = 2 powi e"
      by (simp add: power_int_diff)
    finally show False
      using lo assms(4) by simp
  qed
  have "x / u \<le> of_int m * 2 powi g / u"
    using assms(4) u by (simp add: divide_right_mono)
  also have "\<dots> = of_int (m * 2 ^ nat (g - (e - 23)))"
    by (rule multiple_of_unit(1) [OF u_def d assms(2)])
  finally have "rne (x / u) \<le> m * 2 ^ nat (g - (e - 23))"
    by (rule rne_le)
  then have "of_int (rne (x / u)) * u \<le> (of_int (m * 2 ^ nat (g - (e - 23))) :: rat) * u"
    using u by (simp del: of_int_mult of_int_power)
  then show ?thesis
    unfolding r by (simp only: multiple_of_unit(2) [OF u_def d assms(2)])
qed

lemma round32_exact:
  assumes "0 < m" and "m < 2 ^ 24"
  shows "round32 (of_int m * 2 powi g) = of_int m * 2 powi g"
proof -
  have x: "(0::rat) < of_int m * 2 powi g"
    using assms(1) by simp
  have m: "0 \<le> m"
    using assms(1) by simp
  show ?thesis
    using round32_lower [OF x m assms(2) order_refl] round32_upper [OF x m assms(2) order_refl]
    by (rule order_antisym [rotated])
qed

subsection \<open>Exact results\<close>

lemma rnd_exact:
  assumes "0 < m" and "m < 2 ^ 24" and "- 126 \<le> g" and "g \<le> 100"
  shows "rnd (of_int m * 2 powi g) = Finite (of_int m * 2 powi g)"
proof -
  let ?x = "of_int m * (2::rat) powi g"
  have m1: "(1::rat) \<le> of_int m"
    using assms(1) by simp
  have m2: "(of_int m :: rat) < 2 ^ 24"
    using assms(2) by (metis of_int_less_iff of_int_numeral of_int_power)
  have pos: "0 < ?x"
    using assms(1) by simp
  have "(2::rat) powi (- 126) \<le> 2 powi g"
    using assms(3) by (rule powi_mono)
  also have "\<dots> = 1 * 2 powi g"
    by simp
  also have "\<dots> \<le> ?x"
    using m1 by (intro mult_right_mono) simp_all
  finally have lo: "\<not> \<bar>?x\<bar> < 2 powi (- 126)"
    using pos by simp
  have "?x < 2 ^ 24 * 2 powi g"
    using m2 by (simp add: mult_strict_right_mono)
  also have "\<dots> \<le> 2 ^ 24 * 2 powi 100"
    by (intro mult_left_mono powi_mono assms(4)) simp
  also have "\<dots> < 2 powi 128"
    by (simp add: power_int_def)
  finally have hi: "\<not> 2 powi 128 \<le> \<bar>?x\<bar>"
    using pos by simp
  show ?thesis
    using pos lo hi by (simp add: rnd_def round32_exact [OF assms(1,2)] Let_def)
qed

lemma rnd_int: "0 \<le> z \<Longrightarrow> z < 2 ^ 24 \<Longrightarrow> rnd (of_int z) = Finite (of_int z)"
proof (cases "z = 0")
  case True
  then show ?thesis by (simp add: rnd_def)
next
  case False
  assume "0 \<le> z" "z < 2 ^ 24"
  with False rnd_exact [of z 0] show ?thesis by simp
qed

lemma rnd_quarter:
  "0 \<le> z \<Longrightarrow> z < 2 ^ 24 \<Longrightarrow> rnd (of_int z / 4) = Finite (of_int z / 4)"
proof (cases "z = 0")
  case True
  then show ?thesis by (simp add: rnd_def)
next
  case False
  assume "0 \<le> z" "z < 2 ^ 24"
  moreover have "(2::rat) powi (- 2) = 1 / 4"
    by (simp add: power_int_minus power2_eq_square)
  ultimately show ?thesis
    using False rnd_exact [of z "- 2"] by simp
qed

lemma float_of_int_exact:
  "0 \<le> z \<Longrightarrow> z < 16777216 \<Longrightarrow> float_of_int z = Finite (of_int z)"
  by (simp add: float_of_int_def rnd_int)

lemma fadd_int:
  "0 \<le> a + b \<Longrightarrow> a + b < 16777216 \<Longrightarrow>
     fadd (Finite (of_int a)) (Finite (of_int b)) = Finite (of_int (a + b))"
  using rnd_int [of "a + b"] by simp

lemma fmul_int:
  "0 \<le> a * b \<Longrightarrow> a * b < 16777216 \<Longrightarrow>
     fmul (Finite (of_int a)) (Finite (of_int b)) = Finite (of_int (a * b))"
  using rnd_int [of "a * b"] by simp

lemma pow_int:
  "0 \<le> b \<Longrightarrow> 0 \<le> k \<Longrightarrow> b ^ nat k < 2 ^ 24 \<Longrightarrow> pow b k = Finite (of_int (b ^ nat k))"
  using rnd_int [of "b ^ nat k"] by (simp add: pow_def power_int_def)

subsection \<open>The integer part of a rounded quotient\<close>

text \<open>
  The quotient of two positive integers, rounded, has the integer part of the exact
  quotient when a number with 24 significant bits lies between the exact quotient and
  the next integer; \<open>2 * f * (y div f + 1) \<le> 2 ^ 24\<close> is enough for that.
\<close>

lemma round32_nonneg: "0 < x \<Longrightarrow> 0 \<le> round32 x"
  using round32_lower [of x 0 0] by simp

lemma fdiv_floor:
  assumes "0 < y" and "0 < f" and "f < 2 ^ 24" and "2 * f * (y div f + 1) \<le> 2 ^ 24"
  shows "\<exists>q. fdiv (Finite (of_int y)) (Finite (of_int f)) = Finite q
           \<and> 0 \<le> q \<and> \<lfloor>q\<rfloor> = y div f"
proof -
  define x :: rat where "x = of_int y / of_int f"
  define k where "k = y div f"
  define j where "j = ceillog2 (nat f)"
  define J :: int where "J = 2 ^ j"
  define m where "m = (k + 1) * J - 1"
  have x: "0 < x"
    using assms(1,2) by (simp add: x_def)
  have fl: "\<lfloor>x\<rfloor> = k"
    by (simp add: x_def k_def floor_divide_of_int_eq)
  have k0: "0 \<le> k"
    using assms(1,2) by (simp add: k_def pos_imp_zdiv_nonneg_iff)
  have fJ: "f \<le> J"
  proof -
    have "nat f \<le> 2 ^ j"
      unfolding j_def by (rule le_two_power_ceillog2)
    then have "int (nat f) \<le> int (2 ^ j)"
      by (simp only: of_nat_le_iff)
    then show ?thesis
      using assms(2) by (simp add: J_def)
  qed
  have J2: "J < 2 * f"
  proof -
    have "2 ^ j < 2 * nat f"
      unfolding j_def using assms(2) by (intro two_power_ceillog2_gt) simp
    then have "int (2 ^ j) < int (2 * nat f)"
      by (simp only: of_nat_less_iff)
    then show ?thesis
      using assms(2) by (simp add: J_def)
  qed
  have J0: "0 < J"
    by (simp add: J_def)
  have "(k + 1) * J \<le> (k + 1) * (2 * f)"
    using J2 k0 by (intro mult_left_mono) simp_all
  also have "\<dots> = 2 * f * (k + 1)"
    by simp
  also have "\<dots> \<le> 2 ^ 24"
    using assms(4) by (simp add: k_def)
  finally have kJ: "(k + 1) * J \<le> 2 ^ 24" .
  have m0: "0 \<le> m"
  proof -
    have "1 * 1 \<le> (k + 1) * J"
      using k0 J0 by (intro mult_mono) simp_all
    then show ?thesis
      by (simp add: m_def)
  qed
  have m24: "m < 2 ^ 24"
    using kJ by (simp add: m_def)
  have k24: "k < 2 ^ 24"
  proof -
    have "k * 1 \<le> k * J"
      using k0 J0 by (intro mult_left_mono) simp_all
    then show ?thesis
      using kJ J0 by (simp add: algebra_simps)
  qed
  text \<open>the lower neighbour\<close>
  have "of_int k * 2 powi 0 \<le> x"
    using of_int_floor_le [of x] by (simp add: fl)
  then have lo': "of_int k * 2 powi 0 \<le> round32 x"
    by (rule round32_lower [OF x k0 k24])
  then have lo: "of_int k \<le> round32 x"
    by simp
  text \<open>a representable number between the quotient and \<open>k + 1\<close>\<close>
  have Jr: "(2::rat) powi (- int j) = 1 / of_int J"
    by (simp add: J_def power_int_minus field_simps)
  have r: "of_int m * 2 powi (- int j) = of_int (k + 1) - 1 / (of_int J :: rat)"
    using J0 by (simp add: Jr m_def field_simps)
  have "y mod f < f"
    using assms(2) by simp
  moreover have "y = y div f * f + y mod f"
    by simp
  ultimately have "y + 1 \<le> y div f * f + f"
    by linarith
  then have "y + 1 \<le> (k + 1) * f"
    by (simp add: k_def algebra_simps)
  then have "(of_int (y + 1) :: rat) \<le> of_int ((k + 1) * f)"
    by (simp only: of_int_le_iff)
  then have "x + 1 / of_int f \<le> of_int (k + 1)"
    using assms(2) by (simp add: x_def field_simps)
  moreover have "1 / (of_int J :: rat) \<le> 1 / of_int f"
    using fJ assms(2) by (simp add: frac_le)
  ultimately have "x \<le> of_int m * 2 powi (- int j)"
    unfolding r by linarith
  then have "round32 x \<le> of_int m * 2 powi (- int j)"
    by (rule round32_upper [OF x m0 m24])
  moreover have "of_int m * 2 powi (- int j) < (of_int k :: rat) + 1"
    unfolding r using J0 by simp
  ultimately have hi: "round32 x < of_int k + 1"
    by linarith
  text \<open>the quotient is in the normal range\<close>
  have "(2::rat) powi (- 126) \<le> 2 powi (- 24)"
    by (rule powi_mono) simp
  also have "\<dots> = 1 / 2 ^ 24"
    by (simp add: power_int_minus field_simps)
  also have "\<dots> \<le> 1 / of_int f"
  proof -
    have "(of_int f :: rat) \<le> of_int (2 ^ 24)"
      using assms(3) by (simp only: of_int_le_iff)
    then show ?thesis
      using assms(2) by (intro frac_le) simp_all
  qed
  also have "\<dots> \<le> x"
    using assms(1,2) by (simp add: x_def divide_right_mono)
  finally have n1: "\<not> \<bar>x\<bar> < 2 powi (- 126)"
    using x by simp
  have "(of_int k :: rat) < of_int (2 ^ 24)"
    using k24 by (simp only: of_int_less_iff)
  with hi have "round32 x < 2 ^ 24 + 1"
    by simp
  also have "\<dots> < (2::rat) powi 128"
    by (simp add: power_int_def)
  finally have n2: "\<not> 2 powi 128 \<le> \<bar>round32 x\<bar>"
    using round32_nonneg [OF x] by simp
  have "fdiv (Finite (of_int y)) (Finite (of_int f)) = Finite (round32 x)"
    using assms(2) x n1 n2 by (simp add: rnd_def x_def [symmetric] Let_def)
  moreover have "\<lfloor>round32 x\<rfloor> = k"
    using lo hi by (rule floor_unique)
  ultimately show ?thesis
    using round32_nonneg [OF x] by (auto simp: k_def)
qed

section \<open>The register values in closed form\<close>

lemmas sel_defs = PrescalerBoxIndex_def ChargePumpSetting1SelectedIndex_def
  ChargePumpSetting2SelectedIndex_def ChargePumpGainBoxSelectedIndex_def
  ChargePump3StateBoxSelectedIndex_def FastLockBoxSelectedIndex_def TimeoutBoxSelectedIndex_def
  PhaseDetectorPolarityBoxSelectedIndex_def CounterResetBoxSelectedIndex_def
  LockDetectPrecisionBoxSelectedIndex_def PowerDownBoxSelectedIndex_def
  MuxoutBoxSelectedIndex_def TestmodesBoxSelectedIndex_def

lemmas byte_defs = Prescaler_def CPsetting1_def CPsetting2_def CPGain_def CP3state_def
  Fastlock_def Timeout_def PDPolarity_def CounterReset_def Powerdown_def Muxout_def Testmodes_def

lemma and_numeral_range:
  fixes x :: int
  shows "0 \<le> x AND numeral k" and "x AND numeral k \<le> numeral k"
  by (simp_all add: AND_upper2)

lemma pow_vals:
  "pow 2 23 = Finite (of_int 8388608)" "pow 2 20 = Finite (of_int 1048576)"
  "pow 2 16 = Finite (of_int 65536)" "pow 2 8 = Finite (of_int 256)"
  "pow 2 2 = Finite (of_int 4)"
  by (simp_all add: pow_int)

lemma Reg2_val: "Reg2 = Finite (of_int 5079042)"
proof -
  have "Reg2 = Finite 5079042"
    by code_simp
  then show ?thesis
    by simp
qed

lemma Reg0_val: "Reg0 R = Finite (of_int (9502720 + (R AND 0x3FFF) * 4))"
proof -
  have b: "0 \<le> R AND 0x3FFF" "R AND 0x3FFF \<le> 0x3FFF"
    by (rule and_numeral_range)+
  have s1: "fadd (Finite (of_int 8388608)) (Finite (of_int 1048576)) = Finite (of_int 9437184)"
    by (subst fadd_int) simp_all
  have t: "float_of_byte Testmodes = Finite (of_int 1)"
    using rnd_int [of 1] by (simp add: float_of_byte_def Testmodes_def TestmodesBoxSelectedIndex_def)
  have s2: "fmul (Finite (of_int 1)) (Finite (of_int 65536)) = Finite (of_int 65536)"
    by (subst fmul_int) simp_all
  have s3: "fadd (Finite (of_int 9437184)) (Finite (of_int 65536)) = Finite (of_int 9502720)"
    by (subst fadd_int) simp_all
  have f: "float_of_int (R AND 0x3FFF) = Finite (of_int (R AND 0x3FFF))"
    by (rule float_of_int_exact; use b in linarith)
  have s4: "fmul (Finite (of_int (R AND 0x3FFF))) (Finite (of_int 4)) =
      Finite (of_int ((R AND 0x3FFF) * 4))"
    by (rule fmul_int; use b in linarith)
  have s5: "fadd (Finite (of_int 9502720)) (Finite (of_int ((R AND 0x3FFF) * 4))) =
      Finite (of_int (9502720 + (R AND 0x3FFF) * 4))"
    by (rule fadd_int; use b in linarith)
  show ?thesis
    unfolding Reg0_def fsum_def foldl.simps pow_vals t f s1 s2 s3 s4 s5 ..
qed

lemma Reg1_val: "Reg1 B A = Finite (of_int ((B AND 0x1FFF) * 256 + (A AND 0x3F) * 4 + 1))"
proof -
  have b: "0 \<le> B AND 0x1FFF" "B AND 0x1FFF \<le> 0x1FFF" "0 \<le> A AND 0x3F" "A AND 0x3F \<le> 0x3F"
    by (rule and_numeral_range)+
  have g: "fmul (float_of_byte CPGain) (pow 2 21) = Finite (of_int 0)"
  proof -
    have "fmul (float_of_byte CPGain) (pow 2 21) = Finite 0"
      by code_simp
    then show ?thesis by simp
  qed
  have fb: "float_of_int (B AND 0x1FFF) = Finite (of_int (B AND 0x1FFF))"
    by (rule float_of_int_exact; use b in linarith)
  have fa: "float_of_int (A AND 0x3F) = Finite (of_int (A AND 0x3F))"
    by (rule float_of_int_exact; use b in linarith)
  have f1: "float_of_int 1 = Finite (of_int 1)"
    by (rule float_of_int_exact) simp_all
  have s1: "fmul (Finite (of_int (B AND 0x1FFF))) (Finite (of_int 256)) =
      Finite (of_int ((B AND 0x1FFF) * 256))"
    by (rule fmul_int; use b in linarith)
  have s2: "fmul (Finite (of_int (A AND 0x3F))) (Finite (of_int 4)) =
      Finite (of_int ((A AND 0x3F) * 4))"
    by (rule fmul_int; use b in linarith)
  have s3: "fadd (Finite (of_int 0)) (Finite (of_int ((B AND 0x1FFF) * 256))) =
      Finite (of_int (0 + (B AND 0x1FFF) * 256))"
    by (rule fadd_int; use b in linarith)
  have s4: "fadd (Finite (of_int (0 + (B AND 0x1FFF) * 256))) (Finite (of_int ((A AND 0x3F) * 4))) =
      Finite (of_int (0 + (B AND 0x1FFF) * 256 + (A AND 0x3F) * 4))"
    by (rule fadd_int; use b in linarith)
  have s5: "fadd (Finite (of_int (0 + (B AND 0x1FFF) * 256 + (A AND 0x3F) * 4))) (Finite (of_int 1)) =
      Finite (of_int (0 + (B AND 0x1FFF) * 256 + (A AND 0x3F) * 4 + 1))"
    by (rule fadd_int; use b in linarith)
  have "Reg1 B A = Finite (of_int (0 + (B AND 0x1FFF) * 256 + (A AND 0x3F) * 4 + 1))"
    unfolding Reg1_def fsum_def foldl.simps pow_vals g fb fa f1 s1 s2 s3 s4 s5 ..
  then show ?thesis
    by simp
qed

lemma c_trunc_of_int: "c_trunc (of_int z) = z"
  by (simp add: c_trunc_def)

lemma c_trunc_nonneg: "0 \<le> x \<Longrightarrow> c_trunc x = \<lfloor>x\<rfloor>"
  by (simp add: c_trunc_def)

lemma long_of_float_of_int:
  "- 2147483648 \<le> z \<Longrightarrow> z \<le> 2147483647 \<Longrightarrow> long_of_float (Finite (of_int z)) = Inr z"
  by (simp add: long_of_float_def c_trunc_of_int)

lemma long_of_float_Reg0: "long_of_float (Reg0 R) = Inr (9502720 + (R AND 0x3FFF) * 4)"
proof -
  have "0 \<le> R AND 0x3FFF" "R AND 0x3FFF \<le> 0x3FFF"
    by (rule and_numeral_range)+
  then have "- 2147483648 \<le> 9502720 + (R AND 0x3FFF) * 4"
    and "9502720 + (R AND 0x3FFF) * 4 \<le> 2147483647"
    by linarith+
  then show ?thesis
    unfolding Reg0_val by (rule long_of_float_of_int)
qed

lemma long_of_float_Reg1:
  "long_of_float (Reg1 B A) = Inr ((B AND 0x1FFF) * 256 + (A AND 0x3F) * 4 + 1)"
proof -
  have "0 \<le> B AND 0x1FFF" "B AND 0x1FFF \<le> 0x1FFF" "0 \<le> A AND 0x3F" "A AND 0x3F \<le> 0x3F"
    by (rule and_numeral_range)+
  then have "- 2147483648 \<le> (B AND 0x1FFF) * 256 + (A AND 0x3F) * 4 + 1"
    and "(B AND 0x1FFF) * 256 + (A AND 0x3F) * 4 + 1 \<le> 2147483647"
    by linarith+
  then show ?thesis
    unfolding Reg1_val by (rule long_of_float_of_int)
qed

lemma long_of_float_Reg2: "long_of_float Reg2 = Inr 5079042"
  unfolding Reg2_val by (rule long_of_float_of_int) simp_all

lemma Reg_long_eq:
  "Reg_long t r f =
     (case counters t r f of
        Inl e \<Rightarrow> Inl e
      | Inr (P, R, N, B, A) \<Rightarrow>
          Inr (9502720 + (R AND 0x3FFF) * 4, (B AND 0x1FFF) * 256 + (A AND 0x3F) * 4 + 1, 5079042))"
  by (simp add: Reg_long_def long_of_float_Reg0 long_of_float_Reg1 long_of_float_Reg2
      split: sum.split prod.split)

lemma and_3_mod: "(x::int) AND 3 = x mod 4"
proof -
  have "x AND mask 2 = x mod 2 ^ 2"
    by (simp only: take_bit_eq_mask [symmetric] take_bit_eq_mod)
  then show ?thesis by (simp add: mask_eq_exp_minus_1)
qed

lemma tag_arith:
  fixes a b :: int
  shows "(9502720 + a * 4) mod 4 = 0" and "(a * 256 + b * 4 + 1) mod 4 = 1"
  by presburger+

lemma Reg_long_tags:
  assumes "Reg_long t r f = Inr (r0, r1, r2)"
  shows "r0 AND 3 = 0" and "r1 AND 3 = 1" and "r2 AND 3 = 2"
  using assms
  by (auto simp: Reg_long_eq and_3_mod tag_arith split: sum.splits prod.splits)

lemma lowByte_and_3: "lowByte w AND 3 = word_of_int (w AND 3)"
  by (simp add: lowByte_def of_int_and_eq and.assoc)

section \<open>The counters\<close>

lemma c_div_nonneg: "0 \<le> a \<Longrightarrow> 0 < b \<Longrightarrow> c_div a b = a div b"
  by (cases "a = 0") (simp_all add: c_div_def)

lemma int_of_float_nonneg:
  "0 \<le> x \<Longrightarrow> \<lfloor>x\<rfloor> \<le> 32767 \<Longrightarrow> int_of_float (Finite x) = Inr \<lfloor>x\<rfloor>"
  by (simp add: int_of_float_def c_trunc_nonneg)

lemma int_of_float_too_big:
  "0 \<le> x \<Longrightarrow> 32767 < \<lfloor>x\<rfloor> \<Longrightarrow> int_of_float (Finite x) = Inl Cast_Out_Of_Range"
  by (simp add: int_of_float_def c_trunc_nonneg)

lemma P_val: "int_of_float (pow 2 PrescalerBoxIndex) = Inr 2"
proof -
  have "pow 2 PrescalerBoxIndex = Finite (of_int 2)"
    by (simp add: pow_int PrescalerBoxIndex_def)
  then show ?thesis
    by (simp add: int_of_float_def c_trunc_def)
qed

text \<open>
  The quotient \<open>x * 1000 / f\<close> as the code computes it, for an \<open>x\<close> that is a whole number
  \<open>z\<close> of quarters: the product is exact and the quotient has the right integer part.
\<close>

lemma less_next_multiple: "0 < f \<Longrightarrow> (y::int) < f * (y div f + 1)"
proof -
  assume "0 < f"
  then have "y mod f < f"
    by simp
  moreover have "y = y div f * f + y mod f"
    by simp
  ultimately have "y < y div f * f + f"
    by linarith
  then show ?thesis
    by (simp add: algebra_simps)
qed

lemma scaled_quotient:
  assumes "0 < z" and "0 < f" and "2 * f * (z * 250 div f + 1) \<le> 2 ^ 24"
  shows "\<exists>q. fdiv (fmul (Finite (of_int z / 4)) (float_of_int 1000)) (float_of_int f) = Finite q
           \<and> 0 \<le> q \<and> \<lfloor>q\<rfloor> = z * 250 div f"
proof -
  have y: "0 < z * 250"
    using assms(1) by simp
  have "z * 250 < f * (z * 250 div f + 1)"
    using assms(2) by (rule less_next_multiple)
  with assms(3) have y24: "2 * (z * 250) < 2 ^ 24"
    by simp
  have "0 \<le> z * 250 div f"
    using y assms(2) by (simp add: pos_imp_zdiv_nonneg_iff)
  then have "1 * f \<le> (z * 250 div f + 1) * f"
    using assms(2) by (intro mult_right_mono) simp_all
  with assms(3) have f24: "f < 2 ^ 24"
    by (simp add: algebra_simps)
  have c: "float_of_int 1000 = Finite (of_int 1000)" "float_of_int f = Finite (of_int f)"
    using assms(2) f24 by (simp_all add: float_of_int_exact)
  have "(of_int z :: rat) / 4 * of_int 1000 = of_int (z * 250)"
    by simp
  then have "fmul (Finite (of_int z / 4)) (Finite (of_int 1000)) = rnd (of_int (z * 250))"
    by (simp only: fmul.simps)
  also have "\<dots> = Finite (of_int (z * 250))"
    using y y24 by (intro rnd_int) simp_all
  finally show ?thesis
    unfolding c using fdiv_floor [OF y assms(2) f24 assms(3)] by simp
qed

lemma counters_int:
  assumes "0 < t" and "0 < r" and "0 < f"
    and "2 * f * (r * 1000 div f + 1) \<le> 2 ^ 24" and "2 * f * (t * 250 div f + 1) \<le> 2 ^ 24"
    and "r * 1000 div f \<le> 32767" and "t * 250 div f \<le> 32767"
  shows "counters (float_of_int t) (float_of_int r) (float_of_int f) =
     Inr (16, r * 1000 div f, t * 250 div f, t * 250 div f div 16,
          t * 250 div f - t * 250 div f div 16 * 16)"
proof -
  have "t * 250 < f * (t * 250 div f + 1)"
    using assms(3) by (rule less_next_multiple)
  with assms(1,5) have t24: "t < 2 ^ 24"
    by simp
  have "r * 1000 < f * (r * 1000 div f + 1)"
    using assms(3) by (rule less_next_multiple)
  with assms(2,4) have r24: "r < 2 ^ 24"
    by simp
  text \<open>\<open>RFout = RFout/4\<close>\<close>
  have ft: "float_of_int t = Finite (of_int t)" and fr: "float_of_int r = Finite (of_int r)"
    using assms(1,2) t24 r24 by (simp_all add: float_of_int_exact)
  have f4: "float_of_int 4 = Finite (of_int 4)"
    by (simp add: float_of_int_exact)
  have q4: "fdiv (Finite (of_int t)) (Finite (of_int 4)) = Finite (of_int t / 4)"
    using assms(1) t24 rnd_quarter [of t] by simp
  text \<open>\<open>R\<close>: the reference frequency is \<open>4 * r\<close> quarters\<close>
  have r4: "Finite (of_int r) = Finite (of_int (4 * r) / 4)"
    by simp
  have rr: "4 * r * 250 = r * 1000"
    by simp
  obtain qr where qr: "fdiv (fmul (Finite (of_int r)) (float_of_int 1000)) (float_of_int f) =
      Finite qr" "0 \<le> qr" "\<lfloor>qr\<rfloor> = r * 1000 div f"
    using scaled_quotient [of "4 * r" f] assms(2,3,4) unfolding rr r4 [symmetric] by auto
  obtain qn where qn: "fdiv (fmul (Finite (of_int t / 4)) (float_of_int 1000)) (float_of_int f) =
      Finite qn" "0 \<le> qn" "\<lfloor>qn\<rfloor> = t * 250 div f"
    using scaled_quotient [OF assms(1,3,5)] by auto
  have R: "int_of_float (Finite qr) = Inr (r * 1000 div f)"
    using int_of_float_nonneg [OF qr(2)] assms(6) by (simp add: qr(3))
  have N: "int_of_float (Finite qn) = Inr (t * 250 div f)"
    using int_of_float_nonneg [OF qn(2)] assms(7) by (simp add: qn(3))
  have n0: "0 \<le> t * 250 div f"
    using assms(1,3) by (simp add: pos_imp_zdiv_nonneg_iff)
  have d: "c_div (t * 250 div f) (2 * 8) = t * 250 div f div 16"
    using n0 by (simp add: c_div_nonneg)
  show ?thesis
    unfolding counters_def Let_def ft fr f4 q4 qr(1) qn(1) P_val R N
    by (simp only: sum.case d) simp
qed

section \<open>The stores of calcRegisters\<close>

lemma calcRegisters_eq:
  assumes "Reg_long t r f = Inr (r0, r1, r2)"
    and "in_bounds i (N0 s)" "in_bounds i (N1 s)" "in_bounds i (R0A s)"
      "in_bounds i (R1A s)" "in_bounds i (R2A s)"
  shows "calcRegisters t r f i s =
     Inr ((if i = 0
           then s\<lparr>R0 := lowByte r0, R1 := lowByte (drop_bit 8 r0), R2 := lowByte (drop_bit 16 r0),
                  F0 := lowByte r2, F1 := lowByte (drop_bit 8 r2), F2 := lowByte (drop_bit 16 r2)\<rparr>
           else s)
          \<lparr>N0 := (N0 s)[nat i := lowByte r1],
           N1 := (N1 s)[nat i := lowByte (drop_bit 8 r1)],
           R0A := (R0A s)[nat i := lowByte r0],
           R1A := (R1A s)[nat i := lowByte (drop_bit 8 r0)],
           R2A := (R2A s)[nat i := lowByte (drop_bit 16 r0)]\<rparr>)"
  using assms by (simp add: calcRegisters_def Let_def)

lemma calcRegisters_InrD:
  assumes "calcRegisters t r f i s = Inr s'"
  obtains r0 r1 r2 where "Reg_long t r f = Inr (r0, r1, r2)"
    and "in_bounds i (N0 s)" "in_bounds i (N1 s)" "in_bounds i (R0A s)"
      "in_bounds i (R1A s)" "in_bounds i (R2A s)"
  using assms by (auto simp: calcRegisters_def split: sum.splits prod.splits if_splits)

lemma sized_in_bounds:
  assumes "sized n s" "0 \<le> i" "nat i < n"
  shows "in_bounds i (N0 s)" "in_bounds i (N1 s)" "in_bounds i (R0A s)"
      "in_bounds i (R1A s)" "in_bounds i (R2A s)" "in_bounds i (F0A s)"
      "in_bounds i (F1A s)" "in_bounds i (F2A s)"
  using assms by (simp_all add: sized_def in_bounds_def)

lemma sized_init_state: "sized n (init_state n)"
  by (simp add: sized_def init_state_def)

lemma length_freqVec: "length freqVec = 60"
  by (simp add: freqVec_def)

section \<open>The events of one pass of loop\<close>

lemma rd_in: "in_bounds i xs \<Longrightarrow> rd xs i = Inr (xs ! nat i)"
  by (simp add: rd_def)

lemma rd_nat: "i < length xs \<Longrightarrow> rd xs (int i) = Inr (xs ! i)"
  by (simp add: rd_def in_bounds_def)

lemma loop_from_eq:
  assumes "length (N0 s) \<le> length (N1 s)"
  shows "loop_from s i =
     Inr (concat (map (\<lambda>j. SPIwrite24bitRegister (N2 s) (N1 s ! j) (N0 s ! j) (j = 0))
                   [i..<length (N0 s)]))"
  using assms
proof (induction s i rule: loop_from.induct)
  case (1 s i)
  show ?case
  proof (cases "i < length (N0 s)")
    case True
    then have r: "rd (N1 s) (int i) = Inr (N1 s ! i)" "rd (N0 s) (int i) = Inr (N0 s ! i)"
      using "1.prems" by (simp_all add: rd_nat)
    have IH: "loop_from s (Suc i) =
       Inr (concat (map (\<lambda>j. SPIwrite24bitRegister (N2 s) (N1 s ! j) (N0 s ! j) (j = 0))
                   [Suc i..<length (N0 s)]))"
      using "1.IH" [OF True _ r(1) r(2)] "1.prems" by simp
    show ?thesis
      by (subst loop_from.simps) (simp add: True r IH upt_conv_Cons)
  next
    case False
    then show ?thesis
      by (subst loop_from.simps) simp
  qed
qed

lemma loop_eq:
  assumes "sized n s" and "1 \<le> n"
  shows "loop s =
     Inr (concat (map (\<lambda>j. SPIwrite24bitRegister (N2 s) (N1 s ! j) (N0 s ! j) (j = 0)) [0..<n])
          @ SPIwrite24bitRegister (N2 s) (N1 s ! 0) (N0 s ! 0) False
          @ delayer SWEEP_PAUSE)"
proof -
  have l: "length (N0 s) = n" "length (N1 s) = n"
    using assms(1) by (simp_all add: sized_def)
  have r: "rd (N1 s) 0 = Inr (N1 s ! 0)" "rd (N0 s) 0 = Inr (N0 s ! 0)"
    using l assms(2) by (simp_all add: rd_def in_bounds_def)
  show ?thesis
    by (simp add: loop_def loop_from_eq l r)
qed

section \<open>The checks of setup\<close>

lemma sweep_step_disj:
  "(\<exists>e. sweep_step fv i s = ([], Undefined e))
   \<or> sweep_step fv i s =
      ([Serial_println
          ''RCounter changed during sweep. This is not yet supported. Execution halted''],
       Halted)
   \<or> sweep_step fv i s =
      ([Serial_println
          ''Function Latch changed during sweep. This is not yet supported. Execution halted''],
       Halted)
   \<or> (\<exists>s'. sweep_step fv i s = ([], Done s')
        \<and> calcRegisters (float_of_int (fv ! i)) (float_of_int RFInputFrequency)
             (float_of_int PFDFrequency) (int i) s = Inr s')"
  unfolding sweep_step_def
  by (simp split: sum.split prod.split)

lemma sweep_step_cases:
  obtains (undef) e where "sweep_step fv i s = ([], Undefined e)"
  | (halt_R) "sweep_step fv i s =
      ([Serial_println
          ''RCounter changed during sweep. This is not yet supported. Execution halted''],
       Halted)"
  | (halt_F) "sweep_step fv i s =
      ([Serial_println
          ''Function Latch changed during sweep. This is not yet supported. Execution halted''],
       Halted)"
  | (next_step) s' where "sweep_step fv i s = ([], Done s')"
      and "calcRegisters (float_of_int (fv ! i)) (float_of_int RFInputFrequency)
             (float_of_int PFDFrequency) (int i) s = Inr s'"
  using sweep_step_disj [of fv i s] by blast

lemma populate_events:
  "populate fv i s = (evs, out) \<Longrightarrow>
     (out = Halted \<and>
       (evs = [Serial_println
                   ''RCounter changed during sweep. This is not yet supported. Execution halted'']
        \<or> evs = [Serial_println
                   ''Function Latch changed during sweep. This is not yet supported. Execution halted'']))
     \<or> (out \<noteq> Halted \<and> evs = [])"
proof (induction fv i s arbitrary: evs out rule: populate.induct)
  case (1 fv i s)
  show ?case
  proof (cases "i < length fv")
    case False
    with "1.prems" show ?thesis
      by (subst (asm) populate.simps) auto
  next
    case True
    show ?thesis
    proof (cases fv i s rule: sweep_step_cases)
      case (undef e)
      with "1.prems" True show ?thesis
        by (subst (asm) populate.simps) auto
    next
      case halt_R
      with "1.prems" True show ?thesis
        by (subst (asm) populate.simps) auto
    next
      case halt_F
      with "1.prems" True show ?thesis
        by (subst (asm) populate.simps) auto
    next
      case (next_step s')
      from "1.prems" True next_step(1) have "populate fv (Suc i) s' = (evs, out)"
        by (subst (asm) populate.simps) (auto split: prod.splits)
      then show ?thesis
        by (rule "1.IH" [OF True next_step(1) [symmetric] refl])
    qed
  qed
qed

lemma populate_Done_events: "populate fv i s = (evs, Done s') \<Longrightarrow> evs = []"
  by (drule populate_events) simp

lemma populate_Undefined_events: "populate fv i s = (evs, Undefined e) \<Longrightarrow> evs = []"
  by (drule populate_events) simp

lemma calcRegisters_sized:
  assumes "calcRegisters t r f i s = Inr s'" and "sized n s"
  shows "sized n s'"
proof -
  from assms(1) obtain r0 r1 r2 where R: "Reg_long t r f = Inr (r0, r1, r2)"
    and b: "in_bounds i (N0 s)" "in_bounds i (N1 s)" "in_bounds i (R0A s)"
      "in_bounds i (R1A s)" "in_bounds i (R2A s)"
    by (rule calcRegisters_InrD)
  from assms show ?thesis
    unfolding calcRegisters_eq [OF R b] by (auto simp: sized_def)
qed

text \<open>
  For a frequency that is a positive 16-bit \<open>int\<close>, with the reference and comparison
  frequencies of the sketch, the counters are defined, and the reference and the
  function word do not depend on the frequency.
\<close>

lemma counters_freq:
  assumes "0 < fq" "fq \<le> 32767"
  shows "counters (float_of_int fq) (float_of_int RFInputFrequency) (float_of_int PFDFrequency) =
     Inr (16, 80, fq div 5, fq div 5 div 16, fq div 5 - fq div 5 div 16 * 16)"
proof -
  have "fq * 250 div 1250 = fq * 250 div (250 * 5)"
    by simp
  also have "\<dots> = fq * 250 div 250 div 5"
    by (simp only: zdiv_zmult2_eq)
  also have "\<dots> = fq div 5"
    by simp
  finally have n: "fq * 250 div 1250 = fq div 5" .
  have "fq div 5 \<le> 32767 div 5"
    using assms(2) by (rule zdiv_mono1) simp
  then have b: "fq div 5 \<le> 6553"
    by simp
  have "counters (float_of_int fq) (float_of_int 100) (float_of_int 1250) =
     Inr (16, 100 * 1000 div 1250, fq * 250 div 1250, fq * 250 div 1250 div 16,
          fq * 250 div 1250 - fq * 250 div 1250 div 16 * 16)"
  proof (rule counters_int)
    show "2 * 1250 * (fq * 250 div 1250 + 1) \<le> 2 ^ 24"
      unfolding n using b by simp
    show "fq * 250 div 1250 \<le> 32767"
      unfolding n using b by simp
  qed (use assms in simp_all)
  then show ?thesis
    unfolding n by (simp add: RFInputFrequency_def PFDFrequency_def)
qed

lemma Reg_long_freq:
  assumes "0 < fq" "fq \<le> 32767"
  shows "Reg_long (float_of_int fq) (float_of_int RFInputFrequency) (float_of_int PFDFrequency) =
     Inr (0x910140,
          (fq div 5 div 16 AND 0x1FFF) * 256
            + ((fq div 5 - fq div 5 div 16 * 16) AND 0x3F) * 4 + 1,
          0x4D8002)"
  by (simp add: Reg_long_eq counters_freq [OF assms])

lemma Reg_long_10415:
  "Reg_long (float_of_int 10415) (float_of_int RFInputFrequency) (float_of_int PFDFrequency) =
     Inr (0x910140, 0x820D, 0x4D8002)"
  using Reg_long_freq [of 10415] by simp

lemma lowByte_vals:
  "lowByte 0x910140 = 0x40" "lowByte (drop_bit 8 0x910140) = 0x01"
  "lowByte (drop_bit 16 0x910140) = 0x91"
  "lowByte 0x4D8002 = 0x02" "lowByte (drop_bit 8 0x4D8002) = 0x80"
  "lowByte (drop_bit 16 0x4D8002) = 0x4D"
  by (simp_all add: lowByte_def)

lemma sweep_step_first:
  assumes "0 < n" "0 < fv ! 0" "fv ! 0 \<le> 32767"
  shows "sweep_step fv 0 (init_state n) =
      ([Serial_println
          ''Function Latch changed during sweep. This is not yet supported. Execution halted''],
       Halted)"
proof -
  let ?s = "init_state n"
  have b: "in_bounds 0 (N0 ?s)" "in_bounds 0 (N1 ?s)" "in_bounds 0 (R0A ?s)"
      "in_bounds 0 (R1A ?s)" "in_bounds 0 (R2A ?s)"
    using assms(1) by (simp_all add: in_bounds_def init_state_def)
  show ?thesis
    unfolding sweep_step_def
    apply (simp only: int_ops)
    apply (subst calcRegisters_eq [OF Reg_long_freq [OF assms(2,3)] b])
    using assms(1)
    apply (simp add: lowByte_vals rd_def in_bounds_def init_state_def)
    done
qed

lemma setup_fn_halts:
  assumes "fv \<noteq> []" "0 < fv ! 0" "fv ! 0 \<le> 32767"
  shows "setup_fn fv =
      ([DDRD_or 0xC0, PORTD_write 0x00, Serial_begin 9600,
        Serial_println
          ''Function Latch changed during sweep. This is not yet supported. Execution halted''],
       Halted)"
proof -
  have l: "0 < length fv"
    using assms(1) by simp
  have "populate fv 0 (init_state (length fv)) =
      ([Serial_println
          ''Function Latch changed during sweep. This is not yet supported. Execution halted''],
       Halted)"
    using assms(1) by (subst populate.simps) (simp add: sweep_step_first [OF l assms(2,3)])
  then show ?thesis
    by (simp add: setup_fn_def)
qed

lemma setup_fn_freqVec:
  "setup_fn freqVec =
      ([DDRD_or 0xC0, PORTD_write 0x00, Serial_begin 9600,
        Serial_println
          ''Function Latch changed during sweep. This is not yet supported. Execution halted''],
       Halted)"
  by (rule setup_fn_halts) (simp_all add: freqVec_def)

lemma freqVec_range: "list_all (\<lambda>fq. 0 < fq \<and> fq \<le> 32767) freqVec"
  by (simp add: freqVec_def)

section \<open>The events of a word\<close>

lemma pin_levels:
  "LE_high 0xC0" "SI_high 0xC0" "LE_high 0x80" "\<not> SI_high 0x80" "\<not> LE_high 0x00" "\<not> SI_high 0x00"
  by (simp_all add: LE_high_def SI_high_def bit_numeral_simps)

lemma SPIwrite24bitRegister_events:
  "SPIwrite24bitRegister a b c nf =
     [SPI_transfer a, SPI_transfer b, SPI_transfer c,
      PORTD_write (if nf then 0xC0 else 0x80), DelayMicroseconds 500, PORTD_write 0x00,
      DelayMicroseconds 500]"
  by (simp add: SPIwrite24bitRegister_def delayer_def DO_LONG_DELAY_def PULSE_DURATION_def
      DWELL_TIME_def)

lemma filter_words:
  "filter asserts_LE (SPIwrite24bitRegister a b c nf) = [PORTD_write (if nf then 0xC0 else 0x80)]"
  "filter asserts_SI (SPIwrite24bitRegister a b c nf) = (if nf then [PORTD_write 0xC0] else [])"
  "filter is_transfer (SPIwrite24bitRegister a b c nf) = [SPI_transfer a, SPI_transfer b, SPI_transfer c]"
  by (simp_all add: SPIwrite24bitRegister_events asserts_LE_def asserts_SI_def is_transfer_def
      pin_levels)

lemma filter_delayer:
  "filter asserts_LE (delayer d) = []" "filter asserts_SI (delayer d) = []"
  "filter is_transfer (delayer d) = []"
  by (simp_all add: delayer_def asserts_LE_def asserts_SI_def is_transfer_def)

lemma count_words:
  "length (filter asserts_LE (concat (map (\<lambda>j. SPIwrite24bitRegister a (g j) (h j) (k j)) xs)))
     = length xs"
  "length (filter is_transfer (concat (map (\<lambda>j. SPIwrite24bitRegister a (g j) (h j) (k j)) xs)))
     = 3 * length xs"
  "length (filter asserts_SI (concat (map (\<lambda>j. SPIwrite24bitRegister a (g j) (h j) (k j)) xs)))
     = length (filter k xs)"
  by (induction xs) (simp_all add: filter_words)

lemma first_only: "1 \<le> n \<Longrightarrow> filter (\<lambda>j. j = 0) [0..<n] = [0]"
proof -
  assume "1 \<le> n"
  then have "[0..<n] = 0 # [1..<n]"
    by (simp add: upt_conv_Cons)
  moreover have "filter (\<lambda>j. j = 0) [1..<n] = []"
    by (simp add: filter_empty_conv)
  ultimately show ?thesis
    by simp
qed

lemma passes_eq: "loop s = Inr evs \<Longrightarrow> passes k s = (concat (replicate k evs), None)"
  by (induction k) simp_all


section \<open>The SPI settings of a run\<close>

lemma transfers_configured_set:
  "\<not> list_ex configures es \<Longrightarrow> transfers_configured (Some MSBFIRST) (Some SPI_MODE0) es"
  by (induction es) (auto simp: configures_def split: event.splits)

lemma word_not_configures: "\<not> list_ex configures (SPIwrite24bitRegister a b c nf)"
  by (simp add: SPIwrite24bitRegister_events configures_def)

lemma delayer_not_configures: "\<not> list_ex configures (delayer d)"
  by (simp add: delayer_def configures_def)

lemma loop_from_not_configures:
  "loop_from s i = Inr evs \<Longrightarrow> \<not> list_ex configures evs"
proof (induction s i arbitrary: evs rule: loop_from.induct)
  case (1 s i)
  show ?case
  proof (cases "i < length (N0 s)")
    case False
    with "1.prems" show ?thesis
      by (subst (asm) loop_from.simps) auto
  next
    case True
    from "1.prems" True obtain n1 n0 rest where
      r: "rd (N1 s) (int i) = Inr n1" "rd (N0 s) (int i) = Inr n0"
      and l: "loop_from s (Suc i) = Inr rest"
      and e: "evs = SPIwrite24bitRegister (N2 s) n1 n0 (i = 0) @ rest"
      by (subst (asm) loop_from.simps) (auto split: sum.splits if_splits)
    have "\<not> list_ex configures rest"
      using "1.IH" [OF True _ r l] by simp
    then show ?thesis
      unfolding e using word_not_configures by simp
  qed
qed

lemma loop_not_configures: "loop s = Inr evs \<Longrightarrow> \<not> list_ex configures evs"
  using word_not_configures delayer_not_configures
  by (auto simp: loop_def split: sum.splits dest: loop_from_not_configures)

lemma passes_not_configures: "\<not> list_ex configures (fst (passes k s))"
  by (induction k) (auto split: sum.splits prod.splits dest: loop_not_configures)

lemma setup_send_events:
  "setup_send s =
     delayer SWEEP_PAUSE
     @ SPIwrite24bitRegister (F2 s) (F1 s) (F0 s) False
     @ SPIwrite24bitRegister (R2 s) (R1 s) (R0 s) False"
  by (simp add: setup_send_def SPIwrite24bitRegister_def)

lemma setup_send_not_configures: "\<not> list_ex configures (setup_send s)"
  using word_not_configures delayer_not_configures by (simp add: setup_send_events)

lemma configured_after_setup:
  "transfers_configured None None (setup_spi @ setup_send s @ fst (passes k s))"
  using setup_send_not_configures [of s] passes_not_configures [of k s]
  by (simp add: setup_spi_def transfers_configured_set)

lemma setup_fn_cases:
  obtains (returns) s where "populate fv 0 (init_state (length fv)) = ([], Done s)"
      and "setup_fn fv =
        ([DDRD_or 0xC0, PORTD_write 0x00, Serial_begin 9600] @ setup_spi @ setup_send s, Done s)"
  | (halted) msg where "setup_fn fv =
        ([DDRD_or 0xC0, PORTD_write 0x00, Serial_begin 9600, Serial_println msg], Halted)"
      and "msg = ''RCounter changed during sweep. This is not yet supported. Execution halted''
        \<or> msg = ''Function Latch changed during sweep. This is not yet supported. Execution halted''"
  | (undef) e where
      "setup_fn fv = ([DDRD_or 0xC0, PORTD_write 0x00, Serial_begin 9600], Undefined e)"
proof -
  obtain evs out where p: "populate fv 0 (init_state (length fv)) = (evs, out)"
    by (cases "populate fv 0 (init_state (length fv))")
  note ev = populate_events [OF p]
  show thesis
  proof (cases out)
    case (Done s)
    with ev have "evs = []" by simp
    with p Done show thesis
      by (intro returns [of s]) (simp_all add: setup_fn_def)
  next
    case Halted
    with ev p show thesis
      by (auto simp: setup_fn_def intro: halted)
  next
    case (Undefined e)
    with ev have "evs = []" by simp
    with p Undefined show thesis
      by (intro undef [of e]) (simp_all add: setup_fn_def)
  qed
qed

lemma run_Done:
  "setup_fn fv = (evs, Done s) \<Longrightarrow> run fv k = (evs @ fst (passes k s), snd (passes k s))"
  by (simp add: run_def split: prod.splits)

lemma run_Halted:
  "setup_fn fv = (evs, Halted) \<Longrightarrow> run fv k = (evs @ replicate k (Delay_ms 1), None)"
  by (simp add: run_def)

lemma run_configured: "transfers_configured None None (fst (run fv k))"
proof (cases fv rule: setup_fn_cases)
  case (returns s)
  then show ?thesis
    using configured_after_setup [of s k]
    by (simp add: run_Done [OF returns(2)])
next
  case (halted msg)
  have "transfers_configured bo dm (replicate k (Delay_ms 1))" for bo dm
    by (induction k) simp_all
  then show ?thesis
    by (simp add: run_Halted [OF halted(1)])
next
  case (undef e)
  then show ?thesis
    by (simp add: run_def)
qed

lemma replicate_silent: "\<not> list_ex bus_output (replicate k (Delay_ms 1))"
  by (induction k) (simp_all add: bus_output_def is_transfer_def asserts_LE_def asserts_SI_def)

lemma list_all_weaken:
  "list_all P xs \<Longrightarrow> (\<And>x. P x \<Longrightarrow> Q x) \<Longrightarrow> list_all Q xs"
  by (induction xs) auto

section \<open>setup entered with any globals\<close>

lemma setup_fn_from: "setup_fn fv = setup_from fv (init_state (length fv))"
  by (simp add: setup_fn_def setup_from_def)

lemma run_from_init: "run fv k = run_from fv (init_state (length fv)) k"
  by (simp add: run_def run_from_def setup_fn_from)

lemma setup_from_DoneD:
  assumes "setup_from fv s0 = (evs, Done s)"
  shows "populate fv 0 s0 = ([], Done s)"
    and "evs = [DDRD_or 0xC0, PORTD_write 0x00, Serial_begin 9600] @ setup_spi @ setup_send s"
proof -
  obtain es out where p: "populate fv 0 s0 = (es, out)"
    by (cases "populate fv 0 s0")
  from assms p have o: "out = Done s"
    by (cases out) (simp_all add: setup_from_def)
  with p have e: "es = []"
    using populate_Done_events by blast
  from p o e show "populate fv 0 s0 = ([], Done s)"
    by simp
  from assms p o e
  show "evs = [DDRD_or 0xC0, PORTD_write 0x00, Serial_begin 9600] @ setup_spi @ setup_send s"
    by (simp add: setup_from_def)
qed


lemma sweep_step_DoneD:
  assumes "sweep_step fv i s = (evs, Done s')"
  shows "calcRegisters (float_of_int (fv ! i)) (float_of_int RFInputFrequency)
             (float_of_int PFDFrequency) (int i) s = Inr s'"
    and "rd (F0A s') (int i) = Inr (F0 s')"
  using assms unfolding sweep_step_def
  by (simp_all split: sum.splits prod.splits if_splits)

lemma calcRegisters_scalars:
  assumes "calcRegisters t r f i s = Inr s'" and "i \<noteq> 0"
  shows "R0 s' = R0 s \<and> R1 s' = R1 s \<and> R2 s' = R2 s \<and> F0 s' = F0 s \<and> F1 s' = F1 s \<and> F2 s' = F2 s"
proof -
  from assms(1) obtain r0 r1 r2 where R: "Reg_long t r f = Inr (r0, r1, r2)"
    and b: "in_bounds i (N0 s)" "in_bounds i (N1 s)" "in_bounds i (R0A s)"
      "in_bounds i (R1A s)" "in_bounds i (R2A s)"
    by (rule calcRegisters_InrD)
  from assms show ?thesis
    unfolding calcRegisters_eq [OF R b] by auto
qed

lemma populate_scalars:
  "populate fv i s = (evs, Done s') \<Longrightarrow> 0 < i \<Longrightarrow>
     R0 s' = R0 s \<and> R1 s' = R1 s \<and> R2 s' = R2 s \<and> F0 s' = F0 s \<and> F1 s' = F1 s \<and> F2 s' = F2 s"
proof (induction fv i s arbitrary: evs rule: populate.induct)
  case (1 fv i s)
  show ?case
  proof (cases "i < length fv")
    case False
    with "1.prems" show ?thesis
      by (subst (asm) populate.simps) auto
  next
    case True
    show ?thesis
    proof (cases fv i s rule: sweep_step_cases)
      case (undef e)
      with "1.prems" True show ?thesis
        by (subst (asm) populate.simps) auto
    next
      case halt_R
      with "1.prems" True show ?thesis
        by (subst (asm) populate.simps) auto
    next
      case halt_F
      with "1.prems" True show ?thesis
        by (subst (asm) populate.simps) auto
    next
      case (next_step s1)
      from "1.prems"(1) True next_step(1) have p: "populate fv (Suc i) s1 = (evs, Done s')"
        by (subst (asm) populate.simps) (auto split: prod.splits)
      have "R0 s' = R0 s1 \<and> R1 s' = R1 s1 \<and> R2 s' = R2 s1 \<and> F0 s' = F0 s1 \<and> F1 s' = F1 s1 \<and> F2 s' = F2 s1"
        by (rule "1.IH" [OF True next_step(1) [symmetric] refl p]) simp
      moreover have "R0 s1 = R0 s \<and> R1 s1 = R1 s \<and> R2 s1 = R2 s \<and> F0 s1 = F0 s \<and> F1 s1 = F1 s \<and> F2 s1 = F2 s"
        using next_step(2) by (rule calcRegisters_scalars) (use "1.prems"(2) in simp)
      ultimately show ?thesis
        by simp
    qed
  qed
qed

lemma populate_first:
  assumes "populate fv 0 s0 = (evs, Done s)" and "fv \<noteq> []"
  shows "\<exists>r0 r1 r2 s1.
     Reg_long (float_of_int (fv ! 0)) (float_of_int RFInputFrequency) (float_of_int PFDFrequency) =
       Inr (r0, r1, r2)
     \<and> calcRegisters (float_of_int (fv ! 0)) (float_of_int RFInputFrequency)
         (float_of_int PFDFrequency) 0 s0 = Inr s1
     \<and> (F2 s, F1 s, F0 s) = (lowByte (drop_bit 16 r2), lowByte (drop_bit 8 r2), lowByte r2)
     \<and> (R2 s, R1 s, R0 s) = (lowByte (drop_bit 16 r0), lowByte (drop_bit 8 r0), lowByte r0)
     \<and> rd (F0A s0) 0 = Inr (lowByte r2)"
proof -
  have l: "0 < length fv"
    using assms(2) by simp
  show ?thesis
  proof (cases fv "0::nat" s0 rule: sweep_step_cases)
    case (undef e)
    with assms(1) l show ?thesis
      by (subst (asm) populate.simps) auto
  next
    case halt_R
    with assms(1) l show ?thesis
      by (subst (asm) populate.simps) auto
  next
    case halt_F
    with assms(1) l show ?thesis
      by (subst (asm) populate.simps) auto
  next
    case (next_step s1)
    from assms(1) l next_step(1) have p: "populate fv (Suc 0) s1 = (evs, Done s)"
      by (subst (asm) populate.simps) (auto split: prod.splits)
    have sc: "R0 s = R0 s1 \<and> R1 s = R1 s1 \<and> R2 s = R2 s1 \<and> F0 s = F0 s1 \<and> F1 s = F1 s1 \<and> F2 s = F2 s1"
      using p by (rule populate_scalars) simp
    have c: "calcRegisters (float_of_int (fv ! 0)) (float_of_int RFInputFrequency)
             (float_of_int PFDFrequency) 0 s0 = Inr s1"
      using next_step(2) by simp
    from c obtain r0 r1 r2 where
      R: "Reg_long (float_of_int (fv ! 0)) (float_of_int RFInputFrequency)
            (float_of_int PFDFrequency) = Inr (r0, r1, r2)"
      and b: "in_bounds 0 (N0 s0)" "in_bounds 0 (N1 s0)" "in_bounds 0 (R0A s0)"
        "in_bounds 0 (R1A s0)" "in_bounds 0 (R2A s0)"
      by (rule calcRegisters_InrD)
    note eq = c [unfolded calcRegisters_eq [OF R b], simplified]
    have v: "F2 s1 = lowByte (drop_bit 16 r2)" "F1 s1 = lowByte (drop_bit 8 r2)" "F0 s1 = lowByte r2"
      "R2 s1 = lowByte (drop_bit 16 r0)" "R1 s1 = lowByte (drop_bit 8 r0)" "R0 s1 = lowByte r0"
      "F0A s1 = F0A s0"
      unfolding eq [symmetric] by simp_all
    have "rd (F0A s1) 0 = Inr (F0 s1)"
      using sweep_step_DoneD(2) [OF next_step(1)] by simp
    then have "rd (F0A s0) 0 = Inr (lowByte r2)"
      by (simp add: v)
    with R c sc v show ?thesis
      by simp
  qed
qed

lemma setup_fn_returns_only_empty:
  assumes "setup_fn fv = (evs, Done s)"
  shows "fv = []"
proof (rule ccontr)
  assume n: "fv \<noteq> []"
  have p: "populate fv 0 (init_state (length fv)) = ([], Done s)"
    using assms unfolding setup_fn_from by (rule setup_from_DoneD)
  from populate_first [OF p n] obtain r0 r1 r2 where
    R: "Reg_long (float_of_int (fv ! 0)) (float_of_int RFInputFrequency)
            (float_of_int PFDFrequency) = Inr (r0, r1, r2)"
    and f: "rd (F0A (init_state (length fv))) 0 = Inr (lowByte r2)"
    by blast
  from f n have "lowByte r2 = 0"
    by (simp add: rd_def in_bounds_def init_state_def split: if_splits)
  then have "lowByte r2 AND 3 = 0"
    by simp
  moreover have "lowByte r2 AND 3 = 2"
    using Reg_long_tags [OF R] by (simp add: lowByte_and_3)
  ultimately show False
    by simp
qed



section \<open>The claims about calcRegisters\<close>

subsection \<open>C2: the registers of the first frequency\<close>

text \<open>
  Claim C2 says that for 10415 MHz, with the reference frequency 100, the comparison
  frequency 1250 and the fixed selectors, \<open>calcRegisters\<close> produces the feedback byte pair
  \<open>{0x83, 0x11}\<close>, the reference word \<open>0x910140\<close> and the function word \<open>0x4D8002\<close>.
  The two static words are as claimed, but the feedback bytes the code stores are
  \<open>N1[0] = 0x82\<close> and \<open>N0[0] = 0x0D\<close>: N is 2083, B is 130 and A is 3, so the feedback
  word is \<open>130 * 256 + 3 * 4 + 1 = 0x820D\<close>. The state below is the whole result of the
  first call of the sketch.
\<close>

theorem calcRegisters_10415_not_8311:
  "calcRegisters (float_of_int 10415) (float_of_int RFInputFrequency)
       (float_of_int PFDFrequency) 0 (init_state (length freqVec)) =
     Inr \<lparr>N0 = (replicate 60 0)[0 := 0x0D], N1 = (replicate 60 0)[0 := 0x82], N2 = 0x00,
          R2 = 0x91, R1 = 0x01, R0 = 0x40,
          R0A = (replicate 60 0)[0 := 0x40], R1A = (replicate 60 0)[0 := 0x01],
          R2A = (replicate 60 0)[0 := 0x91],
          F2 = 0x4D, F1 = 0x80, F0 = 0x02,
          F0A = replicate 60 0, F1A = replicate 60 0, F2A = replicate 60 0\<rparr>
   \<and> (0x82 :: byte, 0x0D :: byte) \<noteq> (0x83, 0x11)"
proof -
  let ?s = "init_state (length freqVec)"
  have b: "in_bounds 0 (N0 ?s)" "in_bounds 0 (N1 ?s)" "in_bounds 0 (R0A ?s)"
      "in_bounds 0 (R1A ?s)" "in_bounds 0 (R2A ?s)"
    by (simp_all add: in_bounds_def init_state_def length_freqVec)
  show ?thesis
    by (subst calcRegisters_eq [OF Reg_long_10415 b])
      (simp add: lowByte_def init_state_def length_freqVec)
qed

text \<open>
  Claim C2 as amended: for the target frequency 10415 MHz, the reference frequency 100,
  the comparison frequency 1250 and the fixed selectors of the sketch (prescaler index 1,
  charge-pump settings 3 and 3, test mode 1, all others 0), \<open>calcRegisters\<close> stores the
  feedback middle/low byte pair \<open>{0x82, 0x0D}\<close>, and its reference word is \<open>0x910140\<close> and
  its function word \<open>0x4D8002\<close>, both as words and as the bytes stored in \<open>R2, R1, R0\<close>
  and \<open>F2, F1, F0\<close>.
\<close>

theorem calcRegisters_10415:
  "\<exists>s'. calcRegisters (float_of_int 10415) (float_of_int RFInputFrequency)
           (float_of_int PFDFrequency) 0 (init_state (length freqVec)) = Inr s'
     \<and> (N1 s' ! 0, N0 s' ! 0) = (0x82, 0x0D)
     \<and> (R2 s', R1 s', R0 s') = (0x91, 0x01, 0x40)
     \<and> (F2 s', F1 s', F0 s') = (0x4D, 0x80, 0x02)
     \<and> Reg_long (float_of_int 10415) (float_of_int RFInputFrequency)
           (float_of_int PFDFrequency) =
         Inr (0x910140, 0x820D, 0x4D8002)"
proof -
  let ?s = "init_state (length freqVec)"
  have b: "in_bounds 0 (N0 ?s)" "in_bounds 0 (N1 ?s)" "in_bounds 0 (R0A ?s)"
      "in_bounds 0 (R1A ?s)" "in_bounds 0 (R2A ?s)"
    by (simp_all add: in_bounds_def init_state_def length_freqVec)
  show ?thesis
    apply (simp only: Reg_long_10415)
    apply (subst calcRegisters_eq [OF Reg_long_10415 b])
    apply (simp add: lowByte_def init_state_def length_freqVec)
    done
qed

text \<open>
  The pair \<open>{0x83, 0x11}\<close> is what the code computes for 10500 MHz. It is the first entry
  of the table of the precomputed variant, and that table is what the code computes for
  10500, 10600, ..., 13000 MHz: 26 frequencies 100 MHz apart, where \<open>freqVec\<close> has 60
  frequencies 45 MHz apart, from 10415 MHz on.
\<close>

lemma Reg_long_10500:
  "Reg_long (float_of_int 10500) (float_of_int RFInputFrequency) (float_of_int PFDFrequency) =
     Inr (0x910140, 0x8311, 0x4D8002)"
  using Reg_long_freq [of 10500] by simp

lemma precomputed_table:
  "map (\<lambda>fq. Reg_long (float_of_int fq) (float_of_int RFInputFrequency)
               (float_of_int PFDFrequency))
     [10500, 10600, 10700, 10800, 10900, 11000, 11100, 11200, 11300, 11400, 11500, 11600, 11700,
      11800, 11900, 12000, 12100, 12200, 12300, 12400, 12500, 12600, 12700, 12800, 12900, 13000] =
   map (\<lambda>(n1, n0). Inr (0x910140, uint n1 * 256 + uint n0, 0x4D8002))
     (zip N1_precomputed N0_precomputed)"
  by (simp add: Reg_long_freq N1_precomputed_def N0_precomputed_def)

subsection \<open>C3: the counters\<close>

text \<open>
  Claim C3 says that for every positive target, reference and comparison frequency
  \<open>calcRegisters\<close> computes \<open>P = 2^prescalerIndex * 8\<close>, \<open>R = floor(refFreq*1000/pfdFreq)\<close>,
  \<open>N = floor((targetFreq/4)*1000/pfdFreq)\<close>, \<open>B = floor(N/P)\<close> and \<open>A = N - B*P\<close>.
  R and N are stored in an \<open>int\<close>, which has 16 bits on the target: at 18000 MHz with a
  comparison frequency of 100 the quotient is 45000, which no \<open>int\<close> holds, and the
  conversion is undefined.
\<close>

theorem counters_overflow:
  "counters (float_of_int 18000) (float_of_int 100) (float_of_int 100) = Inl Cast_Out_Of_Range
   \<and> \<lfloor>(18000::rat) / 4 * 1000 / 100\<rfloor> = 45000"
proof -
  have "counters (float_of_int 18000) (float_of_int 100) (float_of_int 100) =
      Inl Cast_Out_Of_Range"
    by code_simp
  then show ?thesis
    by simp
qed

text \<open>
  The product and the quotient are float operations, and they round: at 135005 MHz the
  product \<open>33751.25 * 1000\<close> has 26 significant bits and is rounded to 33751248, and the
  code computes \<open>N = 27000\<close> where the quotient of the claim is 27001.
\<close>

lemma rounding_changes_N:
  "counters (float_of_int 135005) (float_of_int RFInputFrequency) (float_of_int PFDFrequency) =
     Inr (16, 80, 27000, 1687, 8)
   \<and> \<lfloor>(135005::rat) / 4 * 1000 / 1250\<rfloor> = 27001"
proof -
  have "counters (float_of_int 135005) (float_of_int RFInputFrequency)
      (float_of_int PFDFrequency) = Inr (16, 80, 27000, 1687, 8)"
    by code_simp
  then show ?thesis
    by simp
qed

text \<open>
  Claim C3 as amended: for all positive whole numbers of MHz \<open>targetFreq\<close>, \<open>refFreq\<close> and
  \<open>pfdFreq\<close> whose two quotients \<open>R = floor(refFreq*1000/pfdFreq)\<close> and
  \<open>N = floor((targetFreq/4)*1000/pfdFreq)\<close> fit the 16-bit \<open>int\<close> (are at most 32767) and
  are small enough for the float arithmetic to keep their integer parts
  (\<open>(R + 1) * pfdFreq \<le> 2^23\<close> and \<open>(N + 1) * pfdFreq \<le> 2^23\<close>), the counters are computed,
  and they are \<open>P = 2^prescalerIndex * 8\<close>, \<open>R\<close> and \<open>N\<close> those two quotients (the fraction
  is discarded, never rounded up), \<open>B = floor(N/P)\<close> and \<open>A = N - B*P\<close>, so that
  \<open>N = B*P + A\<close> with \<open>0 \<le> A < P\<close>. This covers every frequency an \<open>int\<close> array such as
  \<open>freqVec\<close> can hold, with the reference and comparison frequencies of the sketch
  (\<open>counters_freq\<close>).
\<close>

theorem counters_formulas:
  fixes targetFreq refFreq pfdFreq :: int
  assumes "0 < targetFreq" and "0 < refFreq" and "0 < pfdFreq"
    and "\<lfloor>(of_int refFreq :: rat) * 1000 / of_int pfdFreq\<rfloor> \<le> 32767"
    and "\<lfloor>(of_int targetFreq :: rat) / 4 * 1000 / of_int pfdFreq\<rfloor> \<le> 32767"
    and "(\<lfloor>(of_int refFreq :: rat) * 1000 / of_int pfdFreq\<rfloor> + 1) * pfdFreq \<le> 2 ^ 23"
    and "(\<lfloor>(of_int targetFreq :: rat) / 4 * 1000 / of_int pfdFreq\<rfloor> + 1) * pfdFreq \<le> 2 ^ 23"
  shows "\<exists>P R N B A.
     counters (float_of_int targetFreq) (float_of_int refFreq) (float_of_int pfdFreq) =
       Inr (P, R, N, B, A)
     \<and> P = 2 ^ nat PrescalerBoxIndex * 8
     \<and> R = \<lfloor>(of_int refFreq :: rat) * 1000 / of_int pfdFreq\<rfloor>
     \<and> N = \<lfloor>((of_int targetFreq :: rat) / 4) * 1000 / of_int pfdFreq\<rfloor>
     \<and> B = N div P
     \<and> A = N - B * P
     \<and> N = B * P + A \<and> 0 \<le> A \<and> A < P"
proof -
  have "(of_int refFreq :: rat) * 1000 = of_int (refFreq * 1000)"
    by simp
  then have r: "\<lfloor>(of_int refFreq :: rat) * 1000 / of_int pfdFreq\<rfloor> = refFreq * 1000 div pfdFreq"
    by (simp only: floor_divide_of_int_eq)
  have "(of_int targetFreq :: rat) / 4 * 1000 = of_int (targetFreq * 250)"
    by simp
  then have n: "\<lfloor>(of_int targetFreq :: rat) / 4 * 1000 / of_int pfdFreq\<rfloor> =
      targetFreq * 250 div pfdFreq"
    by (simp only: floor_divide_of_int_eq)
  let ?N = "targetFreq * 250 div pfdFreq"
  have c: "counters (float_of_int targetFreq) (float_of_int refFreq) (float_of_int pfdFreq) =
     Inr (16, refFreq * 1000 div pfdFreq, ?N, ?N div 16, ?N - ?N div 16 * 16)"
    using assms unfolding r n by (intro counters_int) (simp_all add: algebra_simps)
  have "0 \<le> k - k div 16 * 16 \<and> k - k div 16 * 16 < 16" for k :: int
    by presburger
  from this [of ?N] show ?thesis
    unfolding r n c by (simp add: PrescalerBoxIndex_def)
qed

text \<open>Witness for C3: the first frequency of the sketch.\<close>

theorem counters_formulas_witness:
  "\<lfloor>(of_int 100 :: rat) * 1000 / of_int 1250\<rfloor> = 80
   \<and> \<lfloor>(of_int 10415 :: rat) / 4 * 1000 / of_int 1250\<rfloor> = 2083
   \<and> (80 + 1) * 1250 \<le> (2::int) ^ 23 \<and> (2083 + 1) * 1250 \<le> (2::int) ^ 23
   \<and> counters (float_of_int 10415) (float_of_int 100) (float_of_int 1250) =
       Inr (16, 80, 2083, 130, 3)
   \<and> (2083::int) = 130 * 16 + 3"
  using counters_formulas [of 10415 100 1250] by (auto simp: PrescalerBoxIndex_def)

subsection \<open>C4: the destination tags\<close>

text \<open>
  Claim C4: for every valid input to \<open>calcRegisters\<close> (one for which the counters are
  defined), the register words are defined, and the two least-significant bits of the
  reference word are \<open>00\<close>, of the feedback word \<open>01\<close> and of the function word \<open>10\<close>,
  whatever the counters are. The same holds of the low bytes \<open>lowByte\<close> takes of the
  words, which are the bytes stored and sent.
\<close>

theorem destination_tags:
  assumes "counters t r f = Inr (P, R, N, B, A)"
  shows "\<exists>r0 r1 r2.
     Reg_long t r f = Inr (r0, r1, r2)
     \<and> r0 AND 3 = 0 \<and> r1 AND 3 = 1 \<and> r2 AND 3 = 2
     \<and> lowByte r0 AND 3 = 0 \<and> lowByte r1 AND 3 = 1 \<and> lowByte r2 AND 3 = 2"
proof -
  obtain r0 r1 r2 where R: "Reg_long t r f = Inr (r0, r1, r2)"
    using assms by (simp add: Reg_long_eq)
  note tags = Reg_long_tags [OF R]
  have "lowByte r0 AND 3 = 0" "lowByte r1 AND 3 = 1" "lowByte r2 AND 3 = 2"
    by (simp_all add: lowByte_and_3 tags)
  with R tags show ?thesis
    by blast
qed

text \<open>Witness for C4: the first frequency of the sketch.\<close>

theorem destination_tags_witness:
  "counters (float_of_int 10415) (float_of_int RFInputFrequency) (float_of_int PFDFrequency) =
     Inr (16, 80, 2083, 130, 3)
   \<and> Reg_long (float_of_int 10415) (float_of_int RFInputFrequency) (float_of_int PFDFrequency) =
       Inr (0x910140, 0x820D, 0x4D8002)
   \<and> (0x910140 :: int) AND 3 = 0 \<and> (0x820D :: int) AND 3 = 1 \<and> (0x4D8002 :: int) AND 3 = 2"
proof -
  have c: "counters (float_of_int 10415) (float_of_int RFInputFrequency)
      (float_of_int PFDFrequency) = Inr (16, 80, 2083, 130, 3)"
    using counters_freq [of 10415] by simp
  from destination_tags [OF c] show ?thesis
    by (auto simp: c Reg_long_10415)
qed

subsection \<open>C9: what calcRegisters writes\<close>

text \<open>
  Claim C9: a call \<open>calcRegisters(targetFreq, refFreq, pfdFreq, i)\<close> leaves the arrays
  \<open>F0A\<close>, \<open>F1A\<close> and \<open>F2A\<close> as they are. All it writes is \<open>N0[i]\<close>, \<open>N1[i]\<close>, \<open>R0A[i]\<close>,
  \<open>R1A[i]\<close>, \<open>R2A[i]\<close> and, when \<open>i = 0\<close>, the scalars \<open>R0, R1, R2, F0, F1, F2\<close>: the
  globals after the call are the globals before it with these updated. (When the call
  returns is \<open>calcRegisters_eq\<close>: whenever the register words are defined and \<open>i\<close> is an
  index of the arrays.)
\<close>

theorem calcRegisters_frame:
  assumes "calcRegisters t r f i s = Inr s'"
  shows "F0A s' = F0A s \<and> F1A s' = F1A s \<and> F2A s' = F2A s \<and> N2 s' = N2 s
    \<and> (\<exists>n0 n1 r0 r1 r2 f0 f1 f2.
          s' = (if i = 0 then s\<lparr>R0 := r0, R1 := r1, R2 := r2, F0 := f0, F1 := f1, F2 := f2\<rparr>
                else s)
               \<lparr>N0 := (N0 s)[nat i := n0], N1 := (N1 s)[nat i := n1],
                R0A := (R0A s)[nat i := r0], R1A := (R1A s)[nat i := r1],
                R2A := (R2A s)[nat i := r2]\<rparr>)"
proof -
  from assms obtain r0 r1 r2 where R: "Reg_long t r f = Inr (r0, r1, r2)"
    and b: "in_bounds i (N0 s)" "in_bounds i (N1 s)" "in_bounds i (R0A s)"
      "in_bounds i (R1A s)" "in_bounds i (R2A s)"
    by (rule calcRegisters_InrD)
  note eq = assms [unfolded calcRegisters_eq [OF R b], simplified]
  have "F0A s' = F0A s \<and> F1A s' = F1A s \<and> F2A s' = F2A s \<and> N2 s' = N2 s"
    unfolding eq [symmetric] by simp
  moreover have "\<exists>n0 n1 r0 r1 r2 f0 f1 f2.
          s' = (if i = 0 then s\<lparr>R0 := r0, R1 := r1, R2 := r2, F0 := f0, F1 := f1, F2 := f2\<rparr>
                else s)
               \<lparr>N0 := (N0 s)[nat i := n0], N1 := (N1 s)[nat i := n1],
                R0A := (R0A s)[nat i := r0], R1A := (R1A s)[nat i := r1],
                R2A := (R2A s)[nat i := r2]\<rparr>"
    unfolding eq [symmetric] by blast
  ultimately show ?thesis by blast
qed

text \<open>
  Witness for C9: the second step of a sweep of two frequencies, from the globals at
  program start. The function-latch arrays are still zero, and so are the six scalars,
  since \<open>i\<close> is not 0.
\<close>

theorem calcRegisters_frame_witness:
  "\<exists>s'. calcRegisters (float_of_int 10460) (float_of_int RFInputFrequency)
           (float_of_int PFDFrequency) 1 (init_state 2) = Inr s'
     \<and> F0A s' = replicate 2 0 \<and> F1A s' = replicate 2 0 \<and> F2A s' = replicate 2 0 \<and> N2 s' = 0x00
     \<and> (R2 s', R1 s', R0 s', F2 s', F1 s', F0 s') = (0, 0, 0, 0, 0, 0)"
proof -
  let ?s = "init_state 2"
  have b: "in_bounds 1 (N0 ?s)" "in_bounds 1 (N1 ?s)" "in_bounds 1 (R0A ?s)"
      "in_bounds 1 (R1A ?s)" "in_bounds 1 (R2A ?s)"
    by (simp_all add: in_bounds_def init_state_def)
  have R: "Reg_long (float_of_int 10460) (float_of_int RFInputFrequency)
      (float_of_int PFDFrequency) = Inr (0x910140, 0x8231, 0x4D8002)"
    using Reg_long_freq [of 10460] by simp
  obtain s' where c: "calcRegisters (float_of_int 10460) (float_of_int RFInputFrequency)
      (float_of_int PFDFrequency) 1 ?s = Inr s'"
    using calcRegisters_eq [OF R b] by blast
  from calcRegisters_frame [OF c] c show ?thesis
    by (auto simp: init_state_def)
qed

section \<open>The claims about setup\<close>

subsection \<open>C1: the consistency check\<close>

text \<open>
  Claim C1 says that the check in \<open>setup()\<close> lets a sweep pass when every step's
  recomputed reference and function word equal the first step's. The code does not: it
  compares \<open>F0, F1, F2\<close> with \<open>F0A[i], F1A[i], F2A[i]\<close>, arrays that \<open>calcRegisters\<close>
  never writes (claim C9) and that stay zero, while \<open>F0\<close> is \<open>0x02\<close> after the first call.
  For the \<open>freqVec\<close> of the sketch every step has the reference word \<open>0x910140\<close> and the
  function word \<open>0x4D8002\<close>, and yet \<open>setup()\<close> reports a changed function latch at the
  first step and halts. (\<open>setup_fn_halts\<close>: it does so for every frequency array whose
  first entry is a positive \<open>int\<close>.)
\<close>

theorem setup_halts_on_invariant_sweep:
  "setup_fn freqVec =
      ([DDRD_or 0xC0, PORTD_write 0x00, Serial_begin 9600,
        Serial_println
          ''Function Latch changed during sweep. This is not yet supported. Execution halted''],
       Halted)
   \<and> list_all
        (\<lambda>fq. \<exists>r1. Reg_long (float_of_int fq) (float_of_int RFInputFrequency) (float_of_int PFDFrequency) =
                 Inr (0x910140, r1, 0x4D8002))
        freqVec"
proof -
  have "list_all
        (\<lambda>fq. \<exists>r1. Reg_long (float_of_int fq) (float_of_int RFInputFrequency) (float_of_int PFDFrequency) =
                 Inr (0x910140, r1, 0x4D8002))
        freqVec"
    using freqVec_range
  proof (rule list_all_weaken)
    fix fq :: int
    assume "0 < fq \<and> fq \<le> 32767"
    then show "\<exists>r1. Reg_long (float_of_int fq) (float_of_int RFInputFrequency) (float_of_int PFDFrequency) =
                 Inr (0x910140, r1, 0x4D8002)"
      using Reg_long_freq [of fq] by simp
  qed
  with setup_fn_freqVec show ?thesis
    by simp
qed

subsection \<open>C6: after a failed check the bus is silent\<close>

text \<open>
  Claim C6: when the check of \<open>setup()\<close> finds a mismatch, that is, when \<open>setup()\<close> ends in
  one of its halt loops, all the program has done before is to set up the pins and the
  console and to print one report, one of the two messages of the source, and all it
  does afterwards is \<open>delay(1)\<close>, for any
  number \<open>k\<close> of rounds of the halt loop: no event of the run is an SPI transfer or
  raises the latch-enable or the sync line.
\<close>

theorem halt_is_silent:
  assumes "snd (setup_fn fv) = Halted"
  shows "\<exists>msg.
     fst (setup_fn fv) =
       [DDRD_or 0xC0, PORTD_write 0x00, Serial_begin 9600, Serial_println msg]
     \<and> (msg = ''RCounter changed during sweep. This is not yet supported. Execution halted''
        \<or> msg = ''Function Latch changed during sweep. This is not yet supported. Execution halted'')
     \<and> run fv k = (fst (setup_fn fv) @ replicate k (Delay_ms 1), None)
     \<and> \<not> list_ex bus_output (fst (run fv k))"
proof (cases fv rule: setup_fn_cases)
  case (halted msg)
  have "\<not> list_ex bus_output
      ([DDRD_or 0xC0, PORTD_write 0x00, Serial_begin 9600, Serial_println msg]
       @ replicate k (Delay_ms 1))"
    using replicate_silent [of k]
    by (simp add: bus_output_def is_transfer_def asserts_LE_def asserts_SI_def pin_levels)
  with halted(2) show ?thesis
    by (simp only: halted(1) run_Halted [OF halted(1)] fst_conv) blast
next
  case (returns s)
  with assms show ?thesis by simp
next
  case (undef e)
  with assms show ?thesis by simp
qed

text \<open>Witness for C6: the sketch's own \<open>freqVec\<close>, observed for three rounds of the halt loop.\<close>

theorem halt_is_silent_witness:
  "snd (setup_fn freqVec) = Halted
   \<and> run freqVec 3 =
       ([DDRD_or 0xC0, PORTD_write 0x00, Serial_begin 9600,
         Serial_println
           ''Function Latch changed during sweep. This is not yet supported. Execution halted'',
         Delay_ms 1, Delay_ms 1, Delay_ms 1], None)
   \<and> \<not> list_ex bus_output (fst (run freqVec 3))"
proof -
  have h: "snd (setup_fn freqVec) = Halted"
    by (simp add: setup_fn_freqVec)
  from halt_is_silent [OF h, of 3] show ?thesis
    by (auto simp: setup_fn_freqVec numeral_3_eq_3)
qed

subsection \<open>C7: the two static words\<close>



section \<open>The claims about the transmitter and the main loop\<close>

subsection \<open>C8: the effects of SPIwrite24bitRegister\<close>

text \<open>
  Claim C8: a call of \<open>SPIwrite24bitRegister\<close> does exactly this, in this order: it shifts
  out the three bytes, most significant first; it writes \<open>PORTD\<close> with \<open>LE\<close> high, and
  with \<open>SI\<close> high if and only if \<open>NewFrame\<close> is true; it waits \<open>PULSE_DURATION\<close>; it
  writes \<open>PORTD\<close> with both lines low; it waits \<open>DWELL_TIME - PULSE_DURATION\<close>. Every
  transfer is made with the settings of \<open>setup()\<close>, most significant bit first and SPI
  mode 0: this holds of the events of \<open>setup()\<close> followed by any number of passes of
  \<open>loop()\<close> from any globals, and of every run of the program.
\<close>

theorem SPIwrite24bitRegister_sequence:
  "SPIwrite24bitRegister b23to16 b15to8 b7to0 NewFrame =
     [SPI_transfer b23to16, SPI_transfer b15to8, SPI_transfer b7to0,
      PORTD_write (if NewFrame then 0xC0 else 0x80),
      DelayMicroseconds PULSE_DURATION,
      PORTD_write 0x00,
      DelayMicroseconds (DWELL_TIME - PULSE_DURATION)]
   \<and> LE_high (if NewFrame then 0xC0 else 0x80)
   \<and> SI_high (if NewFrame then 0xC0 else 0x80) = NewFrame
   \<and> \<not> LE_high 0x00 \<and> \<not> SI_high 0x00
   \<and> transfers_configured None None (setup_spi @ setup_send s @ fst (passes k s))
   \<and> transfers_configured None None (fst (run fv k))"
  using configured_after_setup [of s k] run_configured [of fv k]
  by (simp add: SPIwrite24bitRegister_def delayer_def DO_LONG_DELAY_def pin_levels)

subsection \<open>C5: one pass of loop\<close>

text \<open>
  Claim C5: for a sweep table of length \<open>n \<ge> 1\<close>, one call of \<open>loop()\<close> returns, and its
  events are those of \<open>n + 1\<close> calls of \<open>SPIwrite24bitRegister\<close> followed by the pause
  \<open>delayer(SWEEP_PAUSE)\<close>: the entries \<open>0, ..., n - 1\<close> of the table in order, with
  \<open>NewFrame\<close> true for entry 0 only, and then entry 0 once more with \<open>NewFrame\<close> false.
  So a pass makes \<open>3 * (n + 1)\<close> transfers and \<open>n + 1\<close> latch-enable pulses, and raises
  the sync line once.
\<close>

theorem loop_pass:
  assumes "sized n s" and "1 \<le> n"
  shows "\<exists>evs.
     loop s = Inr evs
     \<and> evs = concat (map (\<lambda>j. SPIwrite24bitRegister (N2 s) (N1 s ! j) (N0 s ! j) (j = 0)) [0..<n])
             @ SPIwrite24bitRegister (N2 s) (N1 s ! 0) (N0 s ! 0) False
             @ delayer SWEEP_PAUSE
     \<and> length (filter is_transfer evs) = 3 * (n + 1)
     \<and> length (filter asserts_LE evs) = n + 1
     \<and> length (filter asserts_SI evs) = 1"
  using assms(2)
  by (simp add: loop_eq [OF assms] count_words filter_words filter_delayer first_only)

text \<open>Witness for C5: a table of two entries.\<close>

theorem loop_pass_witness:
  "sized 2 (init_state 2) \<and> (1::nat) \<le> 2
   \<and> loop (init_state 2) =
       Inr ([SPI_transfer 0, SPI_transfer 0, SPI_transfer 0, PORTD_write 0xC0,
             DelayMicroseconds 500, PORTD_write 0, DelayMicroseconds 500]
            @ [SPI_transfer 0, SPI_transfer 0, SPI_transfer 0, PORTD_write 0x80,
               DelayMicroseconds 500, PORTD_write 0, DelayMicroseconds 500]
            @ [SPI_transfer 0, SPI_transfer 0, SPI_transfer 0, PORTD_write 0x80,
               DelayMicroseconds 500, PORTD_write 0, DelayMicroseconds 500]
            @ [DelayMicroseconds 0])"
proof -
  have s: "sized 2 (init_state 2)"
    by (rule sized_init_state)
  have u: "[0..<2] = [0, Suc 0]"
    by (simp add: upt_conv_Cons)
  have v: "N2 (init_state 2) = 0" "N1 (init_state 2) ! 0 = 0" "N1 (init_state 2) ! Suc 0 = 0"
    "N0 (init_state 2) ! 0 = 0" "N0 (init_state 2) ! Suc 0 = 0"
    by (simp_all add: init_state_def)
  have "loop (init_state 2) =
     Inr (concat (map (\<lambda>j. SPIwrite24bitRegister (N2 (init_state 2)) (N1 (init_state 2) ! j)
                          (N0 (init_state 2) ! j) (j = 0)) [0..<2])
          @ SPIwrite24bitRegister (N2 (init_state 2)) (N1 (init_state 2) ! 0)
              (N0 (init_state 2) ! 0) False
          @ delayer SWEEP_PAUSE)"
    using loop_pass [OF s] by auto
  then show ?thesis
    using s
    by (simp add: u v SPIwrite24bitRegister_events delayer_def DO_LONG_DELAY_def SWEEP_PAUSE_def)
qed

subsection \<open>C10: the most significant byte of a feedback word\<close>

text \<open>
  Claim C10: the globals start with \<open>N2 = 0x00\<close>, and a call of \<open>calcRegisters\<close>, for any
  frequencies and any index, keeps \<open>N2\<close> and the array sizes and stores in \<open>N1[i]\<close> and
  \<open>N0[i]\<close> the bits 8 to 15 and 0 to 7 of the feedback word it computed. Every word that
  \<open>loop()\<close> then sends, in every one of its \<open>k\<close> passes, has \<open>0x00\<close> as its most
  significant byte: bits 16 to 23 of the computed feedback word are not sent.
\<close>

theorem feedback_msb_zero:
  assumes "sized n s" and "1 \<le> n" and "N2 s = 0x00"
    and "calcRegisters t r f i s = Inr s'"
  shows "sized n s' \<and> N2 s' = 0x00
    \<and> (\<exists>r0 r1 r2. Reg_long t r f = Inr (r0, r1, r2)
          \<and> N1 s' ! nat i = lowByte (drop_bit 8 r1) \<and> N0 s' ! nat i = lowByte r1)
    \<and> (\<exists>evs. loop s' = Inr evs
          \<and> evs = concat (map (\<lambda>j. SPIwrite24bitRegister 0x00 (N1 s' ! j) (N0 s' ! j) (j = 0))
                            [0..<n])
                  @ SPIwrite24bitRegister 0x00 (N1 s' ! 0) (N0 s' ! 0) False
                  @ delayer SWEEP_PAUSE
          \<and> passes k s' = (concat (replicate k evs), None))"
proof -
  from assms(4) obtain r0 r1 r2 where R: "Reg_long t r f = Inr (r0, r1, r2)"
    and b: "in_bounds i (N0 s)" "in_bounds i (N1 s)" "in_bounds i (R0A s)"
      "in_bounds i (R1A s)" "in_bounds i (R2A s)"
    by (rule calcRegisters_InrD)
  have sz: "sized n s'"
    using assms(4,1) by (rule calcRegisters_sized)
  have n2: "N2 s' = 0x00"
    using assms(3,4) unfolding calcRegisters_eq [OF R b] by auto
  have st: "N1 s' ! nat i = lowByte (drop_bit 8 r1)" "N0 s' ! nat i = lowByte r1"
    using assms(4) b unfolding calcRegisters_eq [OF R b] by (auto simp: in_bounds_def)
  note l = loop_eq [OF sz assms(2), unfolded n2]
  show ?thesis
    using sz n2 R st l passes_eq [OF l] by blast
qed

text \<open>
  Witness for C10: at 20480 MHz the computed feedback word is \<open>0x010001\<close>, its bits 16 to
  23 are \<open>0x01\<close>, and the word sent for it is \<open>0x00, 0x00, 0x01\<close>.
\<close>

theorem feedback_msb_zero_witness:
  "sized 2 (init_state 2) \<and> (1::nat) \<le> 2 \<and> N2 (init_state 2) = 0x00
   \<and> Reg_long (float_of_int 20480) (float_of_int RFInputFrequency) (float_of_int PFDFrequency) =
       Inr (0x910140, 0x010001, 0x4D8002)
   \<and> lowByte (drop_bit 16 0x010001) = 0x01
   \<and> (\<exists>s'. calcRegisters (float_of_int 20480) (float_of_int RFInputFrequency)
             (float_of_int PFDFrequency) 1 (init_state 2) = Inr s'
         \<and> N1 s' = [0x00, 0x00] \<and> N0 s' = [0x00, 0x01]
         \<and> loop s' =
             Inr (SPIwrite24bitRegister 0x00 0x00 0x00 True
                  @ SPIwrite24bitRegister 0x00 0x00 0x01 False
                  @ SPIwrite24bitRegister 0x00 0x00 0x00 False
                  @ delayer SWEEP_PAUSE))"
proof -
  let ?s = "init_state 2"
  have s: "sized 2 ?s"
    by (rule sized_init_state)
  have n2: "N2 ?s = 0x00"
    by (simp add: init_state_def)
  have b: "in_bounds 1 (N0 ?s)" "in_bounds 1 (N1 ?s)" "in_bounds 1 (R0A ?s)"
      "in_bounds 1 (R1A ?s)" "in_bounds 1 (R2A ?s)"
    by (simp_all add: in_bounds_def init_state_def)
  have R: "Reg_long (float_of_int 20480) (float_of_int RFInputFrequency)
      (float_of_int PFDFrequency) = Inr (0x910140, 0x010001, 0x4D8002)"
    using Reg_long_freq [of 20480] by simp
  have r2: "replicate 2 (0::byte) = [0, 0]"
    by (simp add: numeral_2_eq_2)
  obtain s' where c: "calcRegisters (float_of_int 20480) (float_of_int RFInputFrequency)
      (float_of_int PFDFrequency) 1 ?s = Inr s'"
    and v: "N1 s' = [0x00, 0x00]" "N0 s' = [0x00, 0x01]"
    using calcRegisters_eq [OF R b] by (simp add: lowByte_def init_state_def r2)
  have u: "[0..<2] = [0, Suc 0]"
    by (simp add: upt_conv_Cons)
  have "loop s' =
     Inr (concat (map (\<lambda>j. SPIwrite24bitRegister 0x00 (N1 s' ! j) (N0 s' ! j) (j = 0)) [0..<2])
          @ SPIwrite24bitRegister 0x00 (N1 s' ! 0) (N0 s' ! 0) False
          @ delayer SWEEP_PAUSE)"
    using feedback_msb_zero [OF s _ n2 c, of 0] by auto
  then have l: "loop s' =
     Inr (SPIwrite24bitRegister 0x00 0x00 0x00 True
          @ SPIwrite24bitRegister 0x00 0x00 0x01 False
          @ SPIwrite24bitRegister 0x00 0x00 0x00 False
          @ delayer SWEEP_PAUSE)"
    by (simp add: u v)
  have "lowByte (drop_bit 16 0x010001) = 0x01"
    by (simp add: lowByte_def)
  with s n2 R c v l show ?thesis
    by auto
qed

end
